theory Spec2Isabelle
  imports Complex_Main "HOL-Library.AList" "HOL-Library.Sublist" "HOL-Library.Multiset"
begin

section \<open>Reporter types\<close>

text \<open>
  The part of \<^verbatim>\<open>reporter.d.ts\<close> that the model reads. A \<^verbatim>\<open>Suite\<close> is an interface whose
  implementation lives in the test runner, so every member the model reads is a field
  of the value: \<^verbatim>\<open>project()\<close> and \<^verbatim>\<open>location\<close> may be undefined, \<^verbatim>\<open>allTests()\<close> is whatever
  the runner answers (only its length is read).
\<close>

datatype location = Location (loc_file: string) (loc_line: nat) (loc_column: nat)

datatype test_error = TestError
  (err_location: "location option") (err_message: "string option")
  (err_snippet: "string option") (err_stack: "string option") (err_value: "string option")

datatype test_case = TestCase (tc_id: string) (tc_title: string) (tc_location: location)

datatype full_project = FullProject (fp_name: string) (fp_testDir: string)

datatype suite = Suite
  (title: string)
  (project: "full_project option")
  (location: "location option")
  (suites: "suite list")
  (tests: "test_case list")
  (allTests: "test_case list")

text \<open>\<^verbatim>\<open>type TestEntry = TestCase | Suite\<close>\<close>

datatype test_entry = EntrySuite suite | EntryCase test_case

text \<open>\<^verbatim>\<open>[...fileSuite.suites, ...fileSuite.tests]\<close>\<close>

definition suiteEntries :: "suite \<Rightarrow> test_entry list" where
  "suiteEntries fileSuite = map EntrySuite (suites fileSuite) @ map EntryCase (tests fileSuite)"

section \<open>JavaScript collections and completions\<close>

text \<open>
  A JavaScript \<^verbatim>\<open>Map\<close> is an association list in insertion order: \<^verbatim>\<open>get\<close> is
  \<^const>\<open>map_of\<close>, \<^verbatim>\<open>set\<close> is \<^const>\<open>AList.update\<close> (an existing key keeps its place, a new
  key goes last), \<^verbatim>\<open>delete\<close> is \<^const>\<open>AList.delete\<close>. A \<^verbatim>\<open>Set\<close> of strings is a list in
  insertion order; \<open>Set_add\<close> is its \<^verbatim>\<open>add\<close>, \<^const>\<open>removeAll\<close> its \<^verbatim>\<open>delete\<close>.
\<close>

definition Set_add :: "'a \<Rightarrow> 'a list \<Rightarrow> 'a list" where
  "Set_add x xs = (if x \<in> set xs then xs else xs @ [x])"

text \<open>\<^verbatim>\<open>new Set(array)\<close>\<close>

definition Set_of :: "'a list \<Rightarrow> 'a list" where
  "Set_of xs = fold Set_add xs []"

text \<open>
  Reading a property of \<^verbatim>\<open>undefined\<close> (behind a non-null assertion \<^verbatim>\<open>!\<close>) throws a
  \<^verbatim>\<open>TypeError\<close>. A method that can throw returns its completion together with the state
  it has reached, since nothing is rolled back.
\<close>

datatype js_error = TypeError

datatype 'a completion = Return 'a | Throw js_error

section \<open>TestFile\<close>

text \<open>
  \<open>fid\<close> is the identity of the object (JavaScript compares objects by reference); the
  back-reference \<^verbatim>\<open>project\<close> is never read by the model and is left out. \<^verbatim>\<open>_revision\<close> is a
  JavaScript number, modelled by a natural number.
\<close>

record test_file =
  fid :: nat
  tf_file :: string
  entries :: "test_entry list option"
  revision :: nat

text \<open>\<^verbatim>\<open>new TestFile(project, file)\<close>, as object number \<open>i\<close>\<close>

definition newTestFile :: "nat \<Rightarrow> string \<Rightarrow> test_file" where
  "newTestFile i f = \<lparr>fid = i, tf_file = f, entries = None, revision = 0\<rparr>"

definition setEntries :: "test_entry list \<Rightarrow> test_file \<Rightarrow> test_file" where
  "setEntries es tf = tf\<lparr>revision := revision tf + 1, entries := Some es\<rparr>"

section \<open>TestProject and TestModel\<close>

record test_project =
  pid :: nat
  name :: string
  testDir :: string
  files :: "(string \<times> test_file) list"
  isEnabled :: bool

text \<open>
  Modelled from the spec: the types \<^verbatim>\<open>TestConfig\<close> (playwrightTest.ts),
  \<^verbatim>\<open>ProjectConfigWithFiles\<close> and the report of \<^verbatim>\<open>listFiles\<close> (listTests.ts) and
  \<^verbatim>\<open>WorkspaceChange\<close> (workspaceObserver.ts) are declared outside the sources at hand; their
  fields follow the constructor of \<^verbatim>\<open>TestModel\<close>, the uses in it and section 6 of the
  specification.
\<close>

record test_config =
  workspaceFolder :: string
  configFile :: string
  cli :: string
  version :: real
  testIdAttributeName :: "string option"

record project_use =
  testIdAttribute :: "string option"

record project_config_with_files =
  pr_name :: string
  pr_testDir :: string
  pr_use :: "project_use option"
  pr_files :: "string list"

record config_list_files_report =
  error :: "test_error option"
  report_projects :: "project_config_with_files list"

record workspace_change =
  created :: "string list"
  changed :: "string list"
  deleted :: "string list"

text \<open>
  What an observer of the model sees happen: a change notification
  (\<^verbatim>\<open>_didUpdate.fire()\<close>) and the calls made to the test runner.
\<close>

datatype event = DidUpdate | ListFilesCall | ListTestsCall "string list"

type_synonym file_to_sources = "(string \<times> string list) list"
type_synonym source_to_file = "(string \<times> string) list"

text \<open>
  \<open>nextId\<close> numbers the objects created so far, \<open>trace\<close> records the events in the order
  they happen. Both are bookkeeping of the model, not fields of the class.
\<close>

record test_model =
  config :: test_config
  projects :: "(string \<times> test_project) list"
  fileToSources :: file_to_sources
  sourceToFile :: source_to_file
  nextId :: nat
  trace :: "event list"

text \<open>
  The collaborators: the two discovery calls of \<^verbatim>\<open>PlaywrightTest\<close> and \<^verbatim>\<open>resolveSourceMap\<close>
  of utils.ts. They are parameters of the model: any answer is allowed, and
  \<^verbatim>\<open>resolveSourceMap\<close> may change the two caches it is handed in any way.
\<close>

record collaborators =
  pt_listFiles :: "test_config \<Rightarrow> config_list_files_report"
  pt_listTests :: "test_config \<Rightarrow> string list \<Rightarrow> suite \<times> test_error list"
  resolveSourceMap :: "string \<Rightarrow> file_to_sources \<Rightarrow> source_to_file
    \<Rightarrow> string list \<times> file_to_sources \<times> source_to_file"

text \<open>The constructor: no projects, empty caches, nothing fired.\<close>

definition newTestModel :: "string \<Rightarrow> string \<Rightarrow> string \<Rightarrow> real \<Rightarrow> test_model" where
  "newTestModel workspaceFolder' configFile' cli' version' =
    \<lparr>config = \<lparr>workspaceFolder = workspaceFolder', configFile = configFile', cli = cli',
        version = version', testIdAttributeName = None\<rparr>,
      projects = [], fileToSources = [], sourceToFile = [], nextId = 0, trace = []\<rparr>"

definition fire :: "test_model \<Rightarrow> test_model" where
  "fire m = m\<lparr>trace := trace m @ [DidUpdate]\<rparr>"

definition called :: "event \<Rightarrow> test_model \<Rightarrow> test_model" where
  "called e m = m\<lparr>trace := trace m @ [e]\<rparr>"

text \<open>The number of change notifications fired so far.\<close>

definition notifications :: "test_model \<Rightarrow> nat" where
  "notifications m = count_list (trace m) DidUpdate"

text \<open>
  \<^verbatim>\<open>setProjectEnabled(project, enabled)\<close>: the argument is a reference to a project object,
  here its identity \<open>r\<close>. The object is written whether or not the model still holds it;
  the model sees the write in the project it holds under that identity (one at most,
  identities being unique).
\<close>

definition setProjectEnabled :: "nat \<Rightarrow> bool \<Rightarrow> test_model \<Rightarrow> test_model" where
  "setProjectEnabled r enabled m =
    fire (m\<lparr>projects :=
      map (\<lambda>(k, p). (k, if pid p = r then p\<lparr>isEnabled := enabled\<rparr> else p)) (projects m)\<rparr>)"

definition allProjects :: "test_model \<Rightarrow> (string \<times> test_project) list" where
  "allProjects m = projects m"

definition enabledProjects :: "test_model \<Rightarrow> test_project list" where
  "enabledProjects m = filter isEnabled (map snd (projects m))"

definition enabledFiles :: "test_model \<Rightarrow> string list" where
  "enabledFiles m = concat (map (\<lambda>p. map fst (files p)) (enabledProjects m))"

section \<open>listFiles\<close>

text \<open>\<^verbatim>\<open>_createFile(project, file)\<close>, the new object being number \<open>i\<close>\<close>

definition createFile :: "nat \<Rightarrow> string \<Rightarrow> test_project \<Rightarrow> test_project" where
  "createFile i f p = p\<lparr>files := AList.update f (newTestFile i f) (files p)\<rparr>"

text \<open>
  The first loop of \<^verbatim>\<open>_updateProject\<close>: a reported file without a \<^verbatim>\<open>TestFile\<close> gets one.
  The state is the project and the number of the next object.
\<close>

fun updateProject_create :: "string list \<Rightarrow> test_project \<times> nat \<Rightarrow> test_project \<times> nat" where
  "updateProject_create [] (p, n) = (p, n)"
| "updateProject_create (f # fs) (p, n) =
    (case map_of (files p) f of
       None \<Rightarrow> updateProject_create fs (createFile n f p, Suc n)
     | Some testFile \<Rightarrow> updateProject_create fs (p, n))"

text \<open>
  The second loop of \<^verbatim>\<open>_updateProject\<close> walks the keys of \<^verbatim>\<open>project.files\<close> and deletes those
  outside \<^verbatim>\<open>filesToKeep\<close>.
\<close>

definition updateProject_prune :: "string list \<Rightarrow> test_project \<Rightarrow> test_project" where
  "updateProject_prune filesToKeep p =
    p\<lparr>files := fold (\<lambda>f fl. if f \<in> set filesToKeep then fl else AList.delete f fl)
      (map fst (files p)) (files p)\<rparr>"

definition updateProject ::
  "test_project \<Rightarrow> project_config_with_files \<Rightarrow> nat \<Rightarrow> test_project \<times> nat" where
  "updateProject p projectReport n =
    (case updateProject_create (pr_files projectReport) (p, n) of
       (p', n') \<Rightarrow> (updateProject_prune (pr_files projectReport) p', n'))"

text \<open>
  \<^verbatim>\<open>_createProject\<close>: the spread copies \<^verbatim>\<open>name\<close> and \<^verbatim>\<open>testDir\<close> of the report; \<^verbatim>\<open>files\<close> is a
  new empty map, \<^verbatim>\<open>isEnabled\<close> is true.
\<close>

definition createProject :: "project_config_with_files \<Rightarrow> test_model \<Rightarrow> test_project \<times> test_model" where
  "createProject projectReport m =
    (let p = \<lparr>pid = nextId m, name = pr_name projectReport, testDir = pr_testDir projectReport,
               files = [], isEnabled = True\<rparr>
     in (p, m\<lparr>projects := AList.update (name p) p (projects m), nextId := Suc (nextId m)\<rparr>))"

text \<open>
  A project object is mutated in place: the model holds the result under the key the
  object was fetched from.
\<close>

definition storeProject :: "string \<Rightarrow> test_project \<times> nat \<Rightarrow> test_model \<Rightarrow> test_model" where
  "storeProject k pn m = m\<lparr>projects := AList.update k (fst pn) (projects m), nextId := snd pn\<rparr>"

text \<open>The source-map loop of \<^verbatim>\<open>listFiles\<close> for the files of one project.\<close>

fun resolveFiles :: "collaborators \<Rightarrow> string list \<Rightarrow> file_to_sources \<times> source_to_file
    \<Rightarrow> string list \<times> file_to_sources \<times> source_to_file" where
  "resolveFiles c [] (a, b) = ([], a, b)"
| "resolveFiles c (f # fs) (a, b) =
    (case resolveSourceMap c f a b of
       (sources, a', b') \<Rightarrow>
         (case resolveFiles c fs (a', b') of
            (rest, a'', b'') \<Rightarrow> (sources @ rest, a'', b'')))"

text \<open>
  The first loop over \<^verbatim>\<open>report.projects\<close>: the files of each project are replaced by their
  sources and \<^verbatim>\<open>config.testIdAttributeName\<close> is overwritten once per project.
\<close>

fun resolveProjects :: "collaborators \<Rightarrow> project_config_with_files list \<Rightarrow> test_model
    \<Rightarrow> project_config_with_files list \<times> test_model" where
  "resolveProjects c [] m = ([], m)"
| "resolveProjects c (pr # prs) m =
    (case resolveFiles c (pr_files pr) (fileToSources m, sourceToFile m) of
       (fs, a, b) \<Rightarrow>
         (case resolveProjects c prs
                 (m\<lparr>fileToSources := a, sourceToFile := b,
                    config := (config m)\<lparr>testIdAttributeName :=
                      (case pr_use pr of None \<Rightarrow> None | Some u \<Rightarrow> testIdAttribute u)\<rparr>\<rparr>) of
            (rest, m') \<Rightarrow> (pr\<lparr>pr_files := fs\<rparr> # rest, m')))"

text \<open>
  The body of the second loop over \<^verbatim>\<open>report.projects\<close>: create the project if unknown, then
  update it.
\<close>

definition listFiles_body :: "project_config_with_files \<Rightarrow> test_model \<Rightarrow> test_model" where
  "listFiles_body projectReport m =
    (case map_of (projects m) (pr_name projectReport) of
       None \<Rightarrow>
         (case createProject projectReport m of
            (p, m') \<Rightarrow>
              storeProject (pr_name projectReport) (updateProject p projectReport (nextId m')) m')
     | Some p \<Rightarrow>
         storeProject (pr_name projectReport) (updateProject p projectReport (nextId m)) m)"

definition listFiles_update :: "project_config_with_files list \<Rightarrow> test_model \<Rightarrow> test_model" where
  "listFiles_update resolved m = fold listFiles_body resolved m"

text \<open>The loop over the keys of \<^verbatim>\<open>_projects\<close> that deletes the projects outside \<^verbatim>\<open>projectsToKeep\<close>.\<close>

definition listFiles_prune :: "string list \<Rightarrow> test_model \<Rightarrow> test_model" where
  "listFiles_prune projectsToKeep m =
    m\<lparr>projects := fold (\<lambda>k ps. if k \<in> set projectsToKeep then ps else AList.delete k ps)
      (map fst (projects m)) (projects m)\<rparr>"

definition listFiles :: "collaborators \<Rightarrow> test_model \<Rightarrow> test_error option completion \<times> test_model" where
  "listFiles c m =
    (let report = pt_listFiles c (config m); m0 = called ListFilesCall m in
     case error report of
       Some e \<Rightarrow> (Return (Some e), m0)
     | None \<Rightarrow>
        (case resolveProjects c (report_projects report) m0 of
           (resolved, m1) \<Rightarrow>
             (Return None,
              fire (listFiles_prune (map pr_name resolved) (listFiles_update resolved m1)))))"

section \<open>listTests\<close>

text \<open>
  \<^verbatim>\<open>projectSuites.find(e => e.project()!.name === projectName)\<close>: the first suite of that
  project; the callback throws on a suite without project that is met before it.
\<close>

fun findProjectSuite :: "string \<Rightarrow> suite list \<Rightarrow> suite option completion" where
  "findProjectSuite projectName [] = Return None"
| "findProjectSuite projectName (e # es) =
    (case project e of
       None \<Rightarrow> Throw TypeError
     | Some fp \<Rightarrow> if fp_name fp = projectName then Return (Some e)
                 else findProjectSuite projectName es)"

text \<open>
  \<^verbatim>\<open>project.files.get(f)\<close> followed by \<^verbatim>\<open>setEntries\<close> on the file found: the file object is
  changed in place, a missing file changes nothing.
\<close>

definition setFileEntries :: "string \<Rightarrow> test_entry list \<Rightarrow> test_project \<Rightarrow> test_project" where
  "setFileEntries f es p =
    (case map_of (files p) f of
       None \<Rightarrow> p
     | Some testFile \<Rightarrow> p\<lparr>files := AList.update f (setEntries es testFile) (files p)\<rparr>)"

text \<open>The loop over the file suites of one project suite; the state is \<^verbatim>\<open>filesToDelete\<close> and the project.\<close>

fun updateProjects_fileSuites ::
  "suite list \<Rightarrow> string list \<times> test_project \<Rightarrow> unit completion \<times> string list \<times> test_project" where
  "updateProjects_fileSuites [] (filesToDelete, p) = (Return (), filesToDelete, p)"
| "updateProjects_fileSuites (fileSuite # rest) (filesToDelete, p) =
    (case location fileSuite of
       None \<Rightarrow> (Throw TypeError, filesToDelete, p)
     | Some l \<Rightarrow> updateProjects_fileSuites rest
         (removeAll (loc_file l) filesToDelete,
          setFileEntries (loc_file l) (suiteEntries fileSuite) p))"

text \<open>"We requested update for those, but got no entries."\<close>

fun updateProjects_noEntries :: "string list \<Rightarrow> test_project \<Rightarrow> test_project" where
  "updateProjects_noEntries [] p = p"
| "updateProjects_noEntries (f # filesToDelete) p =
    updateProjects_noEntries filesToDelete (setFileEntries f [] p)"

text \<open>The body of the loop over \<^verbatim>\<open>_projects\<close> in \<^verbatim>\<open>_updateProjects\<close>.\<close>

definition updateProjects_project ::
  "suite list \<Rightarrow> string list \<Rightarrow> string \<Rightarrow> test_project \<Rightarrow> unit completion \<times> test_project" where
  "updateProjects_project projectSuites requestedFiles projectName p =
    (case findProjectSuite projectName projectSuites of
       Throw e \<Rightarrow> (Throw e, p)
     | Return projectSuite \<Rightarrow>
        (case updateProjects_fileSuites
                (case projectSuite of None \<Rightarrow> [] | Some s \<Rightarrow> suites s)
                (Set_of requestedFiles, p) of
           (Throw e, filesToDelete, p') \<Rightarrow> (Throw e, p')
         | (Return u, filesToDelete, p') \<Rightarrow> (Return (), updateProjects_noEntries filesToDelete p')))"

fun updateProjects_loop :: "suite list \<Rightarrow> string list \<Rightarrow> (string \<times> test_project) list
    \<Rightarrow> unit completion \<times> (string \<times> test_project) list" where
  "updateProjects_loop projectSuites requestedFiles [] = (Return (), [])"
| "updateProjects_loop projectSuites requestedFiles ((projectName, p) # rest) =
    (case updateProjects_project projectSuites requestedFiles projectName p of
       (Throw e, p') \<Rightarrow> (Throw e, (projectName, p') # rest)
     | (Return u, p') \<Rightarrow>
        (case updateProjects_loop projectSuites requestedFiles rest of
           (r, rest') \<Rightarrow> (r, (projectName, p') # rest')))"

definition updateProjects :: "suite list \<Rightarrow> string list \<Rightarrow> test_model \<Rightarrow> unit completion \<times> test_model" where
  "updateProjects projectSuites requestedFiles m =
    (case updateProjects_loop projectSuites requestedFiles (projects m) of
       (Throw e, ps) \<Rightarrow> (Throw e, m\<lparr>projects := ps\<rparr>)
     | (Return u, ps) \<Rightarrow> (Return (), fire (m\<lparr>projects := ps\<rparr>)))"

definition listTests ::
  "collaborators \<Rightarrow> string list \<Rightarrow> test_model \<Rightarrow> test_error list completion \<times> test_model" where
  "listTests c fs m =
    (case pt_listTests c (config m) fs of
       (rootSuite, errors) \<Rightarrow>
         (case updateProjects (suites rootSuite) fs (called (ListTestsCall fs) m) of
            (Throw e, m') \<Rightarrow> (Throw e, m')
          | (Return u, m') \<Rightarrow> (Return errors, m')))"

section \<open>updateFromRunningProjects\<close>

text \<open>
  The loop of \<^verbatim>\<open>_updateFromRunningProject\<close> over the file suites: "When running tests, don't
  remove existing entries." \<^verbatim>\<open>!file.entries()\<close> holds for \<^verbatim>\<open>undefined\<close> only, an empty array
  being truthy.
\<close>

fun updateFromRunningProject_loop ::
  "suite list \<Rightarrow> test_project \<times> nat \<Rightarrow> unit completion \<times> test_project \<times> nat" where
  "updateFromRunningProject_loop [] (p, n) = (Return (), p, n)"
| "updateFromRunningProject_loop (fileSuite # rest) (p, n) =
    (if length (allTests fileSuite) = 0 then updateFromRunningProject_loop rest (p, n)
     else
       (case location fileSuite of
          None \<Rightarrow> (Throw TypeError, p, n)
        | Some l \<Rightarrow>
           (case (case map_of (files p) (loc_file l) of
                    None \<Rightarrow> (newTestFile n (loc_file l), createFile n (loc_file l) p, Suc n)
                  | Some testFile \<Rightarrow> (testFile, p, n)) of
              (testFile, p', n') \<Rightarrow>
                if entries testFile = None
                then updateFromRunningProject_loop rest
                       (setFileEntries (loc_file l) (suiteEntries fileSuite) p', n')
                else updateFromRunningProject_loop rest (p', n'))))"

text \<open>\<^verbatim>\<open>_updateFromRunningProject\<close> on the project held under key \<open>k\<close>; it fires at its end.\<close>

definition updateFromRunningProject ::
  "string \<Rightarrow> test_project \<Rightarrow> suite \<Rightarrow> test_model \<Rightarrow> unit completion \<times> test_model" where
  "updateFromRunningProject k p projectSuite m =
    (case updateFromRunningProject_loop (suites projectSuite) (p, nextId m) of
       (Throw e, pn) \<Rightarrow> (Throw e, storeProject k pn m)
     | (Return u, pn) \<Rightarrow> (Return (), fire (storeProject k pn m)))"

fun updateFromRunningProjects :: "suite list \<Rightarrow> test_model \<Rightarrow> unit completion \<times> test_model" where
  "updateFromRunningProjects [] m = (Return (), m)"
| "updateFromRunningProjects (projectSuite # rest) m =
    (case project projectSuite of
       None \<Rightarrow> (Throw TypeError, m)
     | Some fp \<Rightarrow>
        (case map_of (projects m) (fp_name fp) of
           None \<Rightarrow> updateFromRunningProjects rest m
         | Some p \<Rightarrow>
            (case updateFromRunningProject (fp_name fp) p projectSuite m of
               (Throw e, m') \<Rightarrow> (Throw e, m')
             | (Return u, m') \<Rightarrow> updateFromRunningProjects rest m')))"

section \<open>workspaceChanged\<close>

text \<open>\<^verbatim>\<open>_mapFilesToSources\<close>; an array of sources is truthy even when empty.\<close>

definition mapFilesToSources :: "test_model \<Rightarrow> string list \<Rightarrow> string list" where
  "mapFilesToSources m fs =
    fold (\<lambda>f result.
            case map_of (fileToSources m) f of
              Some sources \<Rightarrow> fold Set_add sources result
            | None \<Rightarrow> Set_add f result) fs []"

text \<open>The deleted files, for one project: the state is the project and \<^verbatim>\<open>modelChanged\<close>.\<close>

fun workspaceChanged_deleteFiles :: "string list \<Rightarrow> test_project \<times> bool \<Rightarrow> test_project \<times> bool" where
  "workspaceChanged_deleteFiles [] (p, modelChanged) = (p, modelChanged)"
| "workspaceChanged_deleteFiles (f # fs) (p, modelChanged) =
    (if f \<in> fst ` set (files p)
     then workspaceChanged_deleteFiles fs (p\<lparr>files := AList.delete f (files p)\<rparr>, True)
     else workspaceChanged_deleteFiles fs (p, modelChanged))"

fun workspaceChanged_deleted :: "string list \<Rightarrow> (string \<times> test_project) list \<Rightarrow> bool
    \<Rightarrow> (string \<times> test_project) list \<times> bool" where
  "workspaceChanged_deleted del [] modelChanged = ([], modelChanged)"
| "workspaceChanged_deleted del ((k, p) # rest) modelChanged =
    (case workspaceChanged_deleteFiles del (p, modelChanged) of
       (p', modelChanged') \<Rightarrow>
         (case workspaceChanged_deleted del rest modelChanged' of
            (rest', modelChanged'') \<Rightarrow> ((k, p') # rest', modelChanged'')))"

definition hasMatchingFiles :: "string list \<Rightarrow> (string \<times> test_project) list \<Rightarrow> bool" where
  "hasMatchingFiles cr ps = list_ex (\<lambda>(k, p). list_ex (\<lambda>f. prefix (testDir p) f) cr) ps"

definition filesToLoad :: "string list \<Rightarrow> (string \<times> test_project) list \<Rightarrow> string list" where
  "filesToLoad ch ps =
    fold (\<lambda>(k, p) acc.
            fold (\<lambda>f acc'.
                    case map_of (files p) f of
                      None \<Rightarrow> acc'
                    | Some testFile \<Rightarrow> if entries testFile = None then acc' else Set_add f acc')
                 ch acc) ps []"

text \<open>The three steps of \<^verbatim>\<open>workspaceChanged\<close>, each on the sets already mapped to sources.\<close>

definition workspaceChanged_step1 :: "string list \<Rightarrow> test_model \<Rightarrow> test_model \<times> bool" where
  "workspaceChanged_step1 del m =
    (if del \<noteq> [] then
       (case workspaceChanged_deleted del (projects m) False of
          (ps, modelChanged) \<Rightarrow> (m\<lparr>projects := ps\<rparr>, modelChanged))
     else (m, False))"

definition workspaceChanged_step2 :: "collaborators \<Rightarrow> string list \<Rightarrow> test_model \<Rightarrow> test_model" where
  "workspaceChanged_step2 c cr m =
    (if cr \<noteq> [] \<and> hasMatchingFiles cr (projects m) then snd (listFiles c m) else m)"

definition workspaceChanged_step3 ::
  "collaborators \<Rightarrow> string list \<Rightarrow> test_model \<Rightarrow> unit completion \<times> test_model" where
  "workspaceChanged_step3 c ch m =
    (if ch \<noteq> [] \<and> filesToLoad ch (projects m) \<noteq> [] then
       (case listTests c (filesToLoad ch (projects m)) m of
          (Throw e, m') \<Rightarrow> (Throw e, m')
        | (Return errors, m') \<Rightarrow> (Return (), m'))
     else (Return (), m))"

definition workspaceChanged ::
  "collaborators \<Rightarrow> workspace_change \<Rightarrow> test_model \<Rightarrow> unit completion \<times> test_model" where
  "workspaceChanged c change m =
    (let changed' = mapFilesToSources m (changed change);
         created' = mapFilesToSources m (created change);
         deleted' = mapFilesToSources m (deleted change)
     in case workspaceChanged_step1 deleted' m of
          (m1, modelChanged) \<Rightarrow>
            (case workspaceChanged_step3 c changed' (workspaceChanged_step2 c created' m1) of
               (Throw e, m3) \<Rightarrow> (Throw e, m3)
             | (Return u, m3) \<Rightarrow> (Return (), if modelChanged then fire m3 else m3)))"

section \<open>Sequences of operations\<close>

text \<open>
  The methods that change the model. Each call comes with the collaborators as they
  answer during that call.
\<close>

datatype operation =
    SetProjectEnabled nat bool
  | ListFiles
  | ListTests "string list"
  | WorkspaceChanged workspace_change
  | UpdateFromRunningProjects "suite list"

fun perform :: "collaborators \<times> operation \<Rightarrow> test_model \<Rightarrow> test_model" where
  "perform (c, SetProjectEnabled r enabled) m = setProjectEnabled r enabled m"
| "perform (c, ListFiles) m = snd (listFiles c m)"
| "perform (c, ListTests fs) m = snd (listTests c fs m)"
| "perform (c, WorkspaceChanged change) m = snd (workspaceChanged c change m)"
| "perform (c, UpdateFromRunningProjects projectSuites) m =
    snd (updateFromRunningProjects projectSuites m)"

definition performAll :: "(collaborators \<times> operation) list \<Rightarrow> test_model \<Rightarrow> test_model" where
  "performAll ops m = fold perform ops m"

text \<open>All file objects the model holds.\<close>

definition allFiles :: "test_model \<Rightarrow> test_file list" where
  "allFiles m = concat (map (\<lambda>(k, p). map snd (files p)) (projects m))"

section \<open>Source-map resolution, as specified\<close>

text \<open>
  The specification of the first step of a discovery pass: every reported file is
  handed to the resolver in the order of the report, each call starting from the caches
  the call before it has left, and the sources it answers are collected. The result is
  the list of the sources and the caches at the end.
\<close>

definition sourcesOf :: "collaborators \<Rightarrow> string list \<Rightarrow> file_to_sources \<times> source_to_file
    \<Rightarrow> string list \<times> file_to_sources \<times> source_to_file" where
  "sourcesOf c fs caches =
    foldl (\<lambda>(acc, a, b) f.
             case resolveSourceMap c f a b of (sources, a', b') \<Rightarrow> (acc @ sources, a', b'))
          ([], caches) fs"

section \<open>Identity of file objects\<close>

text \<open>
  The project objects and the file objects of a model are distinct objects, numbered
  below \<open>nextId\<close>.
\<close>

definition projectIds :: "test_model \<Rightarrow> nat list" where
  "projectIds m = map (\<lambda>kp. pid (snd kp)) (projects m)"

definition wellFormed :: "test_model \<Rightarrow> bool" where
  "wellFormed m \<longleftrightarrow>
     distinct (map fid (allFiles m)) \<and> (\<forall>tf\<in>set (allFiles m). fid tf < nextId m)
     \<and> distinct (projectIds m) \<and> (\<forall>i\<in>set (projectIds m). i < nextId m)"

text \<open>
  How the identities in use may change while the numbering goes from \<open>n\<close> to \<open>n'\<close>: none
  is duplicated, and those that appear are numbers from \<open>n\<close> up to \<open>n'\<close>.
\<close>

definition allocates :: "nat list \<Rightarrow> nat \<Rightarrow> nat list \<Rightarrow> nat \<Rightarrow> bool" where
  "allocates ids n ids' n' \<longleftrightarrow> n \<le> n' \<and> mset ids' \<subseteq># mset ids + mset [n..<n']"

text \<open>
  How a collection of file objects may change while the numbering goes from \<open>n\<close> to \<open>n'\<close>:
  no object is duplicated, the objects that appear are numbered from \<open>n\<close> up to \<open>n'\<close>,
  and an object that persists has not lost revisions.
\<close>

definition evolves :: "test_file list \<Rightarrow> nat \<Rightarrow> test_file list \<Rightarrow> nat \<Rightarrow> bool" where
  "evolves fs n fs' n' \<longleftrightarrow>
     n \<le> n' \<and> mset (map fid fs') \<subseteq># mset (map fid fs) + mset [n..<n']
     \<and> (\<forall>tf'\<in>set fs'.
           (\<exists>tf\<in>set fs. fid tf = fid tf' \<and> revision tf \<le> revision tf') \<or> n \<le> fid tf')"

section \<open>Example values\<close>

text \<open>
  A model with two projects sharing the path \<^verbatim>\<open>/t/x\<close>: in project A it is parsed, with one
  test case, and \<^verbatim>\<open>/t/y\<close> is not parsed yet; in project B it is parsed and empty.
\<close>

definition ex_config :: test_config where
  "ex_config = \<lparr>workspaceFolder = ''/w'', configFile = ''/w/c'', cli = ''cli'',
     version = 1.38, testIdAttributeName = None\<rparr>"

definition ex_case :: test_case where
  "ex_case = TestCase ''1'' ''adds'' (Location ''/t/x'' 3 1)"

definition ex_model :: test_model where
  "ex_model =
    \<lparr>config = ex_config,
      projects =
        [(''A'', \<lparr>pid = 0, name = ''A'', testDir = ''/t'',
            files = [(''/t/x'', \<lparr>fid = 1, tf_file = ''/t/x'', entries = Some [EntryCase ex_case],
                                revision = 1\<rparr>),
                     (''/t/y'', \<lparr>fid = 2, tf_file = ''/t/y'', entries = None, revision = 0\<rparr>)],
            isEnabled = True\<rparr>),
         (''B'', \<lparr>pid = 3, name = ''B'', testDir = ''/u'',
            files = [(''/t/x'', \<lparr>fid = 4, tf_file = ''/t/x'', entries = Some [], revision = 1\<rparr>)],
            isEnabled = False\<rparr>)],
      fileToSources = [], sourceToFile = [], nextId = 5, trace = []\<rparr>"

definition ex_error :: test_error where
  "ex_error = TestError None (Some ''config failed'') None None None"

text \<open>A file suite for \<open>f\<close> holding one test case, and a project suite for project \<open>n\<close>.\<close>

definition ex_fileSuite :: "string \<Rightarrow> suite" where
  "ex_fileSuite f = Suite f None (Some (Location f 0 0)) []
     [TestCase ''2'' ''subtracts'' (Location f 5 1)] [TestCase ''2'' ''subtracts'' (Location f 5 1)]"

definition ex_projectSuite :: "string \<Rightarrow> suite list \<Rightarrow> suite" where
  "ex_projectSuite n fileSuites = Suite n (Some (FullProject n ''/t'')) None fileSuites [] []"

text \<open>
  Collaborators: source maps resolve every file to itself; \<^verbatim>\<open>listFiles\<close> answers with the
  report \<open>r\<close> and \<^verbatim>\<open>listTests\<close> with the project suites \<open>ss\<close> and no error.
\<close>

definition ex_collaborators :: "config_list_files_report \<Rightarrow> suite list \<Rightarrow> collaborators" where
  "ex_collaborators r ss =
    \<lparr>pt_listFiles = (\<lambda>cfg. r),
      pt_listTests = (\<lambda>cfg fs. (Suite [] None None ss [] [], [])),
      resolveSourceMap = (\<lambda>f a b. ([f], a, b))\<rparr>"

definition ex_failed :: config_list_files_report where
  "ex_failed = \<lparr>error = Some ex_error, report_projects = []\<rparr>"

text \<open>A report with project A only, holding \<^verbatim>\<open>/t/x\<close> and the new \<^verbatim>\<open>/t/z\<close>.\<close>

definition ex_report :: config_list_files_report where
  "ex_report = \<lparr>error = None, report_projects =
     [\<lparr>pr_name = ''A'', pr_testDir = ''/t'', pr_use = None, pr_files = [''/t/x'', ''/t/z'']\<rparr>]\<rparr>"

text \<open>
  Collaborators with a source map: \<^verbatim>\<open>/o/x\<close> is compiled from \<^verbatim>\<open>/t/x\<close> and \<^verbatim>\<open>/t/z\<close>, which the
  resolver answers and notes in both caches; any other file is its own source.
\<close>

definition ex_sourceMaps :: "config_list_files_report \<Rightarrow> collaborators" where
  "ex_sourceMaps r =
    \<lparr>pt_listFiles = (\<lambda>cfg. r),
      pt_listTests = (\<lambda>cfg fs. (Suite [] None None [] [] [], [])),
      resolveSourceMap = (\<lambda>f a b.
        if f = ''/o/x''
        then ([''/t/x'', ''/t/z''], AList.update f [''/t/x'', ''/t/z''] a,
              AList.update ''/t/z'' f (AList.update ''/t/x'' f b))
        else ([f], a, b))\<rparr>"

text \<open>A report with project A only, holding the compiled \<^verbatim>\<open>/o/x\<close>.\<close>

definition ex_compiled :: config_list_files_report where
  "ex_compiled = \<lparr>error = None, report_projects =
     [\<lparr>pr_name = ''A'', pr_testDir = ''/t'', pr_use = None, pr_files = [''/o/x'']\<rparr>]\<rparr>"

section \<open>Facts about the collections\<close>

lemma set_Set_add: "set (Set_add x xs) = insert x (set xs)"
  by (auto simp: Set_add_def)

lemma distinct_Set_add: "distinct xs \<Longrightarrow> distinct (Set_add x xs)"
  by (simp add: Set_add_def)

lemma set_fold_Set_add: "set (fold Set_add ys xs) = set ys \<union> set xs"
  by (induction ys arbitrary: xs) (auto simp: set_Set_add)

lemma distinct_fold_Set_add: "distinct xs \<Longrightarrow> distinct (fold Set_add ys xs)"
  by (induction ys arbitrary: xs) (auto simp: distinct_Set_add)

lemma set_Set_of: "set (Set_of xs) = set xs"
  by (simp add: Set_of_def set_fold_Set_add)

lemma distinct_Set_of: "distinct (Set_of xs)"
  by (simp add: Set_of_def distinct_fold_Set_add)

lemma delete_as_filter: "AList.delete k ps = filter (\<lambda>kv. fst kv \<noteq> k) ps"
  by (induction ps) auto

lemma fold_prune:
  "fold (\<lambda>k ps. if k \<in> S then ps else AList.delete k ps) ks ps
     = filter (\<lambda>kv. fst kv \<in> S \<or> fst kv \<notin> set ks) ps"
proof (induction ks arbitrary: ps)
  case Nil
  show ?case by simp
next
  case (Cons k ks)
  show ?case
  proof (cases "k \<in> S")
    case True
    then have "filter (\<lambda>kv. fst kv \<in> S \<or> fst kv \<notin> set ks) ps
        = filter (\<lambda>kv. fst kv \<in> S \<or> fst kv \<notin> set (k # ks)) ps"
      by (intro filter_cong) auto
    with True Cons.IH [of ps] show ?thesis by simp
  next
    case False
    then have "filter (\<lambda>kv. fst kv \<in> S \<or> fst kv \<notin> set ks) (filter (\<lambda>kv. fst kv \<noteq> k) ps)
        = filter (\<lambda>kv. fst kv \<in> S \<or> fst kv \<notin> set (k # ks)) ps"
      unfolding filter_filter by (intro filter_cong) auto
    with False Cons.IH [of "AList.delete k ps"] show ?thesis
      by (simp add: delete_as_filter)
  qed
qed

lemma fold_prune_keys:
  "fold (\<lambda>k ps. if k \<in> S then ps else AList.delete k ps) (map fst ps) ps
     = filter (\<lambda>kv. fst kv \<in> S) ps"
  unfolding fold_prune by (intro filter_cong) auto

lemma map_of_filter_keys:
  "map_of (filter (\<lambda>kv. fst kv \<in> S) ps) k = (if k \<in> S then map_of ps k else None)"
  by (induction ps) auto

lemma projects_listFiles_prune:
  "projects (listFiles_prune keep m) = filter (\<lambda>kv. fst kv \<in> set keep) (projects m)"
  by (simp add: listFiles_prune_def fold_prune_keys)

lemma files_updateProject_prune:
  "files (updateProject_prune keep p) = filter (\<lambda>kv. fst kv \<in> set keep) (files p)"
  by (simp add: updateProject_prune_def fold_prune_keys)

section \<open>TestFile\<close>

lemma setEntries_simps:
  "revision (setEntries es tf) = Suc (revision tf)"
  "entries (setEntries es tf) = Some es"
  "fid (setEntries es tf) = fid tf"
  "tf_file (setEntries es tf) = tf_file tf"
  by (simp_all add: setEntries_def)

lemma newTestFile_simps:
  "revision (newTestFile i f) = 0"
  "entries (newTestFile i f) = None"
  "fid (newTestFile i f) = i"
  "tf_file (newTestFile i f) = f"
  by (simp_all add: newTestFile_def)

section \<open>Events\<close>

lemma notifications_fire: "notifications (fire m) = Suc (notifications m)"
  by (simp add: notifications_def fire_def)

lemma notifications_called: "e \<noteq> DidUpdate \<Longrightarrow> notifications (called e m) = notifications m"
  by (simp add: notifications_def called_def)

lemma fire_fields:
  "projects (fire m) = projects m" "config (fire m) = config m" "nextId (fire m) = nextId m"
  "fileToSources (fire m) = fileToSources m" "sourceToFile (fire m) = sourceToFile m"
  "trace (fire m) = trace m @ [DidUpdate]"
  by (simp_all add: fire_def)

lemma called_fields:
  "projects (called e m) = projects m" "config (called e m) = config m"
  "nextId (called e m) = nextId m"
  "fileToSources (called e m) = fileToSources m" "sourceToFile (called e m) = sourceToFile m"
  "trace (called e m) = trace m @ [e]"
  by (simp_all add: called_def)

lemma storeProject_fields:
  "projects (storeProject k pn m) = AList.update k (fst pn) (projects m)"
  "config (storeProject k pn m) = config m" "nextId (storeProject k pn m) = snd pn"
  "fileToSources (storeProject k pn m) = fileToSources m"
  "sourceToFile (storeProject k pn m) = sourceToFile m"
  "trace (storeProject k pn m) = trace m"
  by (simp_all add: storeProject_def)

section \<open>Failed discovery\<close>

text \<open>
  C1. When the report of the discovery collaborator carries a top-level error,
  \<open>listFiles\<close> returns that error and the model is as before the call: projects, files,
  entries, revisions, configuration and source-map caches are untouched and no change
  notification is fired; only the call to the collaborator has been observed.
\<close>

theorem listFiles_error_leaves_model:
  assumes "error (pt_listFiles c (config m)) = Some e"
  shows "listFiles c m = (Return (Some e), m\<lparr>trace := trace m @ [ListFilesCall]\<rparr>)
    \<and> projects (snd (listFiles c m)) = projects m
    \<and> config (snd (listFiles c m)) = config m
    \<and> notifications (snd (listFiles c m)) = notifications m"
  using assms by (simp add: listFiles_def Let_def called_def notifications_def)

theorem listFiles_error_leaves_model_witness:
  "error (pt_listFiles (ex_collaborators ex_failed []) (config ex_model)) = Some ex_error
   \<and> listFiles (ex_collaborators ex_failed []) ex_model
       = (Return (Some ex_error), ex_model\<lparr>trace := trace ex_model @ [ListFilesCall]\<rparr>)
   \<and> projects (snd (listFiles (ex_collaborators ex_failed []) ex_model)) = projects ex_model
   \<and> config (snd (listFiles (ex_collaborators ex_failed []) ex_model)) = config ex_model
   \<and> notifications (snd (listFiles (ex_collaborators ex_failed []) ex_model))
       = notifications ex_model"
proof -
  have h: "error (pt_listFiles (ex_collaborators ex_failed []) (config ex_model)) = Some ex_error"
    by (simp add: ex_collaborators_def ex_failed_def)
  from listFiles_error_leaves_model [OF h] h show ?thesis by blast
qed

section \<open>Enabling a project\<close>

lemma map_of_map_values:
  "map_of (map (\<lambda>(k, v). (k, g v)) ps) k = map_option g (map_of ps k)"
  by (induction ps) auto

text \<open>
  C10. \<open>setProjectEnabled\<close> on the project object \<open>r\<close> sets the enabled flag of that
  project and nothing else: the keys of the project map and their order are the same,
  every project keeps its identity, name, test directory and file map (so every file its
  entries and revision), every other project keeps its flag, and the configuration and
  the source-map caches are the same. One change notification is fired. In a well-formed
  model the object \<open>r\<close> is held under one key at most.
\<close>

theorem setProjectEnabled_frame:
  "map fst (projects (setProjectEnabled r b m)) = map fst (projects m)
   \<and> map_of (projects (setProjectEnabled r b m)) k
       = map_option (\<lambda>p. if pid p = r then p\<lparr>isEnabled := b\<rparr> else p) (map_of (projects m) k)
   \<and> (\<forall>p. map_of (projects m) k = Some p \<longrightarrow>
        (\<exists>p'. map_of (projects (setProjectEnabled r b m)) k = Some p'
           \<and> isEnabled p' = (if pid p = r then b else isEnabled p)
           \<and> files p' = files p \<and> pid p' = pid p \<and> name p' = name p \<and> testDir p' = testDir p))
   \<and> allFiles (setProjectEnabled r b m) = allFiles m
   \<and> config (setProjectEnabled r b m) = config m
   \<and> fileToSources (setProjectEnabled r b m) = fileToSources m
   \<and> sourceToFile (setProjectEnabled r b m) = sourceToFile m
   \<and> trace (setProjectEnabled r b m) = trace m @ [DidUpdate]
   \<and> (wellFormed m \<longrightarrow>
        (\<forall>k' p p'. map_of (projects m) k = Some p \<and> map_of (projects m) k' = Some p'
           \<and> pid p = r \<and> pid p' = r \<longrightarrow> k' = k))"
proof -
  have 1: "map fst (projects (setProjectEnabled r b m)) = map fst (projects m)"
    by (simp add: setProjectEnabled_def fire_def case_prod_unfold comp_def)
  have 2: "map_of (projects (setProjectEnabled r b m)) k
       = map_option (\<lambda>p. if pid p = r then p\<lparr>isEnabled := b\<rparr> else p) (map_of (projects m) k)"
    by (simp add: setProjectEnabled_def fire_def map_of_map_values)
  have 3: "allFiles (setProjectEnabled r b m) = allFiles m"
    unfolding allFiles_def setProjectEnabled_def fire_def case_prod_unfold
    by (simp add: comp_def if_distrib [where f = files] cong: if_cong)
  have 4: "config (setProjectEnabled r b m) = config m
   \<and> fileToSources (setProjectEnabled r b m) = fileToSources m
   \<and> sourceToFile (setProjectEnabled r b m) = sourceToFile m
   \<and> trace (setProjectEnabled r b m) = trace m @ [DidUpdate]"
    by (simp add: setProjectEnabled_def fire_def)
  from 2 have 5: "\<forall>p. map_of (projects m) k = Some p \<longrightarrow>
        (\<exists>p'. map_of (projects (setProjectEnabled r b m)) k = Some p'
           \<and> isEnabled p' = (if pid p = r then b else isEnabled p)
           \<and> files p' = files p \<and> pid p' = pid p \<and> name p' = name p \<and> testDir p' = testDir p)"
    by auto
  have 6: "k' = k"
    if "wellFormed m" "map_of (projects m) k = Some p" "map_of (projects m) k' = Some p'"
      "pid p = r" "pid p' = r" for k' p p'
  proof -
    from that(1) have inj: "inj_on (\<lambda>kp. pid (snd kp)) (set (projects m))"
      by (simp add: wellFormed_def projectIds_def distinct_map)
    from that(2,3) have mem: "(k, p) \<in> set (projects m)" "(k', p') \<in> set (projects m)"
      by (simp_all add: map_of_SomeD)
    from that(4,5) have "pid (snd (k, p)) = pid (snd (k', p'))" by simp
    from inj_onD [OF inj this mem] show ?thesis by simp
  qed
  from 1 2 3 4 5 6 show ?thesis by blast
qed

theorem setProjectEnabled_frame_witness:
  "wellFormed ex_model
   \<and> map_of (projects ex_model) ''A'' \<noteq> None
   \<and> (\<exists>p'. map_of (projects (setProjectEnabled 0 False ex_model)) ''A'' = Some p'
         \<and> isEnabled p' = False
         \<and> files p' = files (the (map_of (projects ex_model) ''A'')) \<and> pid p' = 0)
   \<and> allFiles (setProjectEnabled 0 False ex_model) = allFiles ex_model"
proof -
  have wf: "wellFormed ex_model"
    by (simp add: wellFormed_def allFiles_def projectIds_def ex_model_def)
  have a: "map_of (projects ex_model) ''A''
      = Some (the (map_of (projects ex_model) ''A''))"
    by (simp add: ex_model_def)
  have i: "pid (the (map_of (projects ex_model) ''A'')) = 0"
    by (simp add: ex_model_def)
  note main = setProjectEnabled_frame [of 0 False ex_model "''A''"]
  from main a obtain p' where
    p': "map_of (projects (setProjectEnabled 0 False ex_model)) ''A'' = Some p'"
    "isEnabled p' = (if pid (the (map_of (projects ex_model) ''A'')) = 0 then False
       else isEnabled (the (map_of (projects ex_model) ''A'')))"
    "files p' = files (the (map_of (projects ex_model) ''A''))"
    "pid p' = pid (the (map_of (projects ex_model) ''A''))"
    by blast
  from main have all: "allFiles (setProjectEnabled 0 False ex_model) = allFiles ex_model"
    by blast
  from p' i have "\<exists>p'. map_of (projects (setProjectEnabled 0 False ex_model)) ''A'' = Some p'
         \<and> isEnabled p' = False
         \<and> files p' = files (the (map_of (projects ex_model) ''A'')) \<and> pid p' = 0"
    by simp
  moreover have "map_of (projects ex_model) ''A'' \<noteq> None"
    by (simp add: ex_model_def)
  ultimately show ?thesis using wf all by blast
qed

section \<open>Files of a project\<close>

lemma setFileEntries_fields:
  "pid (setFileEntries f es p) = pid p" "name (setFileEntries f es p) = name p"
  "testDir (setFileEntries f es p) = testDir p" "isEnabled (setFileEntries f es p) = isEnabled p"
  by (simp_all add: setFileEntries_def split: option.split)

lemma setFileEntries_keys: "map fst (files (setFileEntries f es p)) = map fst (files p)"
proof (cases "map_of (files p) f")
  case None
  then show ?thesis by (simp add: setFileEntries_def)
next
  case (Some tf)
  then have "f \<in> fst ` set (files p)"
    by (metis map_of_eq_None_iff option.distinct(1))
  with Some show ?thesis by (simp add: setFileEntries_def update_keys)
qed

lemma map_of_setFileEntries:
  "map_of (files (setFileEntries f es p)) g
     = (if g = f then map_option (setEntries es) (map_of (files p) f) else map_of (files p) g)"
  by (simp add: setFileEntries_def update_conv' split: option.split)

lemma createFile_fields:
  "pid (createFile n f p) = pid p" "name (createFile n f p) = name p"
  "testDir (createFile n f p) = testDir p" "isEnabled (createFile n f p) = isEnabled p"
  by (simp_all add: createFile_def)

lemma map_of_createFile:
  "map_of (files (createFile n f p)) g
     = (if g = f then Some (newTestFile n f) else map_of (files p) g)"
  by (simp add: createFile_def update_conv')

section \<open>Live runs\<close>

lemma updateFromRunningProject_loop_fields:
  "updateFromRunningProject_loop fss (p, n) = (r, p', n') \<Longrightarrow>
     pid p' = pid p \<and> name p' = name p \<and> testDir p' = testDir p \<and> isEnabled p' = isEnabled p"
proof (induction fss arbitrary: p n)
  case Nil
  then show ?case by simp
next
  case (Cons fs fss)
  then show ?case
    by (auto simp: setFileEntries_fields createFile_fields
        split: if_splits option.splits prod.splits)
qed

lemma updateFromRunningProject_loop_kept:
  "updateFromRunningProject_loop fss (p, n) = (r, p', n') \<Longrightarrow>
     map_of (files p) f = Some tf \<Longrightarrow>
     \<exists>tf'. map_of (files p') f = Some tf' \<and> (entries tf \<noteq> None \<longrightarrow> tf' = tf)"
proof (induction fss arbitrary: p n tf)
  case Nil
  then show ?case by simp
next
  case (Cons fs fss)
  show ?case
  proof (cases "length (allTests fs) = 0")
    case True
    with Cons.prems have "updateFromRunningProject_loop fss (p, n) = (r, p', n')" by simp
    from Cons.IH [OF this Cons.prems(2)] show ?thesis .
  next
    case nonempty: False
    show ?thesis
    proof (cases "location fs")
      case None
      with nonempty Cons.prems show ?thesis by simp
    next
      case (Some l)
      show ?thesis
      proof (cases "map_of (files p) (loc_file l)")
        case None
        with nonempty Some Cons.prems have run:
          "updateFromRunningProject_loop fss
             (setFileEntries (loc_file l) (suiteEntries fs) (createFile n (loc_file l) p), Suc n)
           = (r, p', n')"
          by (simp add: newTestFile_simps)
        from None Cons.prems(2) have "f \<noteq> loc_file l" by auto
        with Cons.prems(2) have
          "map_of (files (setFileEntries (loc_file l) (suiteEntries fs)
             (createFile n (loc_file l) p))) f = Some tf"
          by (simp add: map_of_setFileEntries map_of_createFile)
        from Cons.IH [OF run this] show ?thesis .
      next
        case found: (Some testFile)
        show ?thesis
        proof (cases "entries testFile = None")
          case False
          with nonempty Some found Cons.prems have
            "updateFromRunningProject_loop fss (p, n) = (r, p', n')" by simp
          from Cons.IH [OF this Cons.prems(2)] show ?thesis .
        next
          case True
          with nonempty Some found Cons.prems have run:
            "updateFromRunningProject_loop fss
               (setFileEntries (loc_file l) (suiteEntries fs) p, n) = (r, p', n')"
            by simp
          show ?thesis
          proof (cases "f = loc_file l")
            case False
            with Cons.prems(2) have
              "map_of (files (setFileEntries (loc_file l) (suiteEntries fs) p)) f = Some tf"
              by (simp add: map_of_setFileEntries)
            from Cons.IH [OF run this] show ?thesis .
          next
            case same: True
            with found Cons.prems(2) have tf: "testFile = tf" by simp
            from same found have
              "map_of (files (setFileEntries (loc_file l) (suiteEntries fs) p)) f
                 = Some (setEntries (suiteEntries fs) testFile)"
              by (simp add: map_of_setFileEntries)
            from Cons.IH [OF run this] obtain tf' where "map_of (files p') f = Some tf'"
              by blast
            with True tf show ?thesis by simp
          qed
        qed
      qed
    qed
  qed
qed

lemma updateFromRunningProject_keys:
  assumes "map_of (projects m) k = Some p"
  shows "map fst (projects (snd (updateFromRunningProject k p s m))) = map fst (projects m)"
proof -
  from assms have "k \<in> set (map fst (projects m))"
    by (auto dest!: map_of_SomeD simp: image_iff) force
  then show ?thesis
    by (auto simp: updateFromRunningProject_def storeProject_fields fire_fields update_keys
        split: prod.split completion.split)
qed

lemma updateFromRunningProject_notifications:
  "updateFromRunningProject k p s m = (Return u, m') \<Longrightarrow> notifications m' = Suc (notifications m)"
  by (auto simp: updateFromRunningProject_def notifications_def fire_def storeProject_def
      split: prod.splits completion.splits)

lemma map_of_Some_key: "map_of ps k = Some v \<Longrightarrow> k \<in> fst ` set ps"
  by (metis map_of_eq_None_iff option.distinct(1))

text \<open>
  C7 fails as stated: the notification is fired by \<^verbatim>\<open>_updateFromRunningProject\<close>, once for each
  reported project suite of a known project. Here the only reported suite is for a
  project C that the model does not know; the call returns and nothing is fired.
\<close>

theorem updateFromRunningProjects_unknown_project_silent:
  "updateFromRunningProjects [ex_projectSuite ''C'' [ex_fileSuite ''/t/x'']] ex_model
     = (Return (), ex_model)
   \<and> notifications (snd (updateFromRunningProjects
        [ex_projectSuite ''C'' [ex_fileSuite ''/t/x'']] ex_model)) \<noteq> notifications ex_model + 1"
  by (simp add: ex_projectSuite_def ex_model_def)

text \<open>
  C7, amended. A call of \<open>updateFromRunningProjects\<close> that returns fires one change
  notification for each reported project suite whose project the model knows, and
  none for the others: the number of notifications grows by the number of such suites,
  whether or not any entry changed.
\<close>

theorem updateFromRunningProjects_notifications:
  "updateFromRunningProjects pss m = (Return (), m') \<Longrightarrow>
     notifications m' = notifications m
       + length (filter (\<lambda>s. case project s of None \<Rightarrow> False
                              | Some fp \<Rightarrow> fp_name fp \<in> fst ` set (projects m)) pss)"
proof (induction pss arbitrary: m)
  case Nil
  then show ?case by simp
next
  case (Cons s pss)
  show ?case
  proof (cases "project s")
    case None
    with Cons.prems show ?thesis by simp
  next
    case (Some fp)
    show ?thesis
    proof (cases "map_of (projects m) (fp_name fp)")
      case None
      then have "fp_name fp \<notin> fst ` set (projects m)"
        by (simp add: map_of_eq_None_iff)
      moreover from None Some Cons.prems
      have "updateFromRunningProjects pss m = (Return (), m')" by simp
      ultimately show ?thesis using Some Cons.IH [of m] by simp
    next
      case found: (Some p)
      obtain r m1 where step: "updateFromRunningProject (fp_name fp) p s m = (r, m1)"
        by (cases "updateFromRunningProject (fp_name fp) p s m")
      with Some found Cons.prems obtain u where r: "r = Return u"
        and rest: "updateFromRunningProjects pss m1 = (Return (), m')"
        by (cases r) auto
      from step r have n1: "notifications m1 = Suc (notifications m)"
        by (simp add: updateFromRunningProject_notifications)
      from updateFromRunningProject_keys [OF found, of s] step
      have keys: "fst ` set (projects m1) = fst ` set (projects m)"
        by (metis snd_conv set_map)
      from Cons.IH [OF rest] have "notifications m' = notifications m1
        + length (filter (\<lambda>s. case project s of None \<Rightarrow> False
                              | Some fp \<Rightarrow> fp_name fp \<in> fst ` set (projects m)) pss)"
        unfolding keys .
      with n1 Some found show ?thesis
        by (simp add: map_of_Some_key)
    qed
  qed
qed

theorem updateFromRunningProjects_notifications_witness:
  "updateFromRunningProjects
     [ex_projectSuite ''A'' [], ex_projectSuite ''C'' [], ex_projectSuite ''B'' []] ex_model
     = (Return (), ex_model\<lparr>trace := [DidUpdate, DidUpdate]\<rparr>)
   \<and> notifications (ex_model\<lparr>trace := [DidUpdate, DidUpdate]\<rparr>) = notifications ex_model + 2"
proof -
  have run: "updateFromRunningProjects
     [ex_projectSuite ''A'' [], ex_projectSuite ''C'' [], ex_projectSuite ''B'' []] ex_model
     = (Return (), ex_model\<lparr>trace := [DidUpdate, DidUpdate]\<rparr>)"
    by (simp add: ex_projectSuite_def ex_model_def updateFromRunningProject_def
        storeProject_def fire_def)
  from updateFromRunningProjects_notifications [OF run] run show ?thesis
    by (simp add: ex_projectSuite_def ex_model_def)
qed

lemma updateFromRunningProject_lookup:
  assumes "updateFromRunningProject_loop (suites s) (p, nextId m) = (r, p', n')"
  shows "map_of (projects (snd (updateFromRunningProject k p s m))) k'
           = (if k' = k then Some p' else map_of (projects m) k')"
  using assms
  by (cases r) (simp_all add: updateFromRunningProject_def storeProject_fields fire_fields
      update_conv')

lemma updateFromRunningProjects_kept:
  "map_of (projects m) k = Some p \<Longrightarrow>
   \<exists>p'. map_of (projects (snd (updateFromRunningProjects pss m))) k = Some p'
     \<and> pid p' = pid p \<and> name p' = name p \<and> testDir p' = testDir p \<and> isEnabled p' = isEnabled p
     \<and> (\<forall>f tf. map_of (files p) f = Some tf \<longrightarrow>
           (\<exists>tf'. map_of (files p') f = Some tf' \<and> (entries tf \<noteq> None \<longrightarrow> tf' = tf)))"
proof (induction pss arbitrary: m p)
  case Nil
  then show ?case by simp
next
  case (Cons s pss)
  show ?case
  proof (cases "project s")
    case None
    with Cons.prems show ?thesis by simp
  next
    case (Some fp)
    show ?thesis
    proof (cases "map_of (projects m) (fp_name fp)")
      case None
      with Some Cons.IH [OF Cons.prems] show ?thesis by simp
    next
      case found: (Some q)
      obtain r q' n' where loop:
        "updateFromRunningProject_loop (suites s) (q, nextId m) = (r, q', n')"
        by (cases "updateFromRunningProject_loop (suites s) (q, nextId m)")
      define m1 where "m1 = snd (updateFromRunningProject (fp_name fp) q s m)"
      define p1 where "p1 = (if k = fp_name fp then q' else p)"
      have look: "map_of (projects m1) k = Some p1"
        using updateFromRunningProject_lookup [OF loop, of "fp_name fp" k] Cons.prems
        by (simp add: m1_def p1_def)
      have fields1: "pid p1 = pid p \<and> name p1 = name p \<and> testDir p1 = testDir p
          \<and> isEnabled p1 = isEnabled p"
        using updateFromRunningProject_loop_fields [OF loop] found Cons.prems
        by (auto simp: p1_def)
      have kept1: "\<exists>tf1. map_of (files p1) f = Some tf1 \<and> (entries tf \<noteq> None \<longrightarrow> tf1 = tf)"
        if "map_of (files p) f = Some tf" for f tf
        using updateFromRunningProject_loop_kept [OF loop, of f tf] that found Cons.prems
        by (auto simp: p1_def)
      have final: "snd (updateFromRunningProjects (s # pss) m) = m1
          \<or> snd (updateFromRunningProjects (s # pss) m) = snd (updateFromRunningProjects pss m1)"
        using Some found
        by (cases "updateFromRunningProject (fp_name fp) q s m")
           (auto simp: m1_def split: completion.split)
      from Cons.IH [OF look] obtain p' where p':
        "map_of (projects (snd (updateFromRunningProjects pss m1))) k = Some p'"
        "pid p' = pid p1" "name p' = name p1" "testDir p' = testDir p1"
        "isEnabled p' = isEnabled p1"
        "\<And>f tf. map_of (files p1) f = Some tf \<Longrightarrow>
           \<exists>tf'. map_of (files p') f = Some tf' \<and> (entries tf \<noteq> None \<longrightarrow> tf' = tf)"
        by blast
      have kept2: "\<exists>tf'. map_of (files p') f = Some tf' \<and> (entries tf \<noteq> None \<longrightarrow> tf' = tf)"
        if "map_of (files p) f = Some tf" for f tf
      proof -
        from kept1 [OF that] obtain tf1 where tf1: "map_of (files p1) f = Some tf1"
          "entries tf \<noteq> None \<longrightarrow> tf1 = tf" by blast
        from p'(6) [OF tf1(1)] obtain tf' where "map_of (files p') f = Some tf'"
          "entries tf1 \<noteq> None \<longrightarrow> tf' = tf1" by blast
        with tf1(2) show ?thesis by auto
      qed
      from final show ?thesis
      proof
        assume "snd (updateFromRunningProjects (s # pss) m) = m1"
        with look fields1 kept1 show ?thesis by auto
      next
        assume "snd (updateFromRunningProjects (s # pss) m)
          = snd (updateFromRunningProjects pss m1)"
        with p' fields1 kept2 show ?thesis by auto
      qed
    qed
  qed
qed

lemma updateFromRunningProjects_keys:
  "map fst (projects (snd (updateFromRunningProjects pss m))) = map fst (projects m)"
proof (induction pss arbitrary: m)
  case Nil
  show ?case by simp
next
  case (Cons s pss)
  show ?case
  proof (cases "project s")
    case None
    then show ?thesis by simp
  next
    case (Some fp)
    show ?thesis
    proof (cases "map_of (projects m) (fp_name fp)")
      case None
      with Some Cons.IH [of m] show ?thesis by simp
    next
      case found: (Some q)
      obtain r m1 where step: "updateFromRunningProject (fp_name fp) q s m = (r, m1)"
        by (cases "updateFromRunningProject (fp_name fp) q s m")
      with updateFromRunningProject_keys [OF found, of s]
      have "map fst (projects m1) = map fst (projects m)" by simp
      with Some found step Cons.IH [of m1] show ?thesis
        by (cases r) simp_all
    qed
  qed
qed

text \<open>
  C4. Whatever project suites a live run reports, \<open>updateFromRunningProjects\<close> removes no
  project and no file, and a file that holds parsed entries (an empty sequence
  included) is left as it is, entries and revision: only a file whose entries are
  undefined can change. This holds for the state the call leaves, also when it throws.
\<close>

theorem updateFromRunningProjects_keeps_parsed:
  "map fst (projects (snd (updateFromRunningProjects pss m))) = map fst (projects m)
   \<and> (\<forall>p. map_of (projects m) k = Some p \<longrightarrow>
        (\<exists>p'. map_of (projects (snd (updateFromRunningProjects pss m))) k = Some p'
           \<and> pid p' = pid p \<and> isEnabled p' = isEnabled p
           \<and> (\<forall>f tf. map_of (files p) f = Some tf \<longrightarrow>
                (\<exists>tf'. map_of (files p') f = Some tf'
                   \<and> (entries tf \<noteq> None \<longrightarrow> tf' = tf)
                   \<and> (tf' \<noteq> tf \<longrightarrow> entries tf = None)))))"
proof -
  have "\<exists>p'. map_of (projects (snd (updateFromRunningProjects pss m))) k = Some p'
           \<and> pid p' = pid p \<and> isEnabled p' = isEnabled p
           \<and> (\<forall>f tf. map_of (files p) f = Some tf \<longrightarrow>
                (\<exists>tf'. map_of (files p') f = Some tf'
                   \<and> (entries tf \<noteq> None \<longrightarrow> tf' = tf)
                   \<and> (tf' \<noteq> tf \<longrightarrow> entries tf = None)))"
    if "map_of (projects m) k = Some p" for p
    using updateFromRunningProjects_kept [OF that, of pss] by blast
  then show ?thesis
    by (simp add: updateFromRunningProjects_keys)
qed

theorem updateFromRunningProjects_keeps_parsed_witness:
  "map_of (files (the (map_of (projects ex_model) ''A''))) ''/t/x''
     = Some \<lparr>fid = 1, tf_file = ''/t/x'', entries = Some [EntryCase ex_case], revision = 1\<rparr>
   \<and> (\<exists>p'. map_of (projects (snd (updateFromRunningProjects
               [ex_projectSuite ''A'' [ex_fileSuite ''/t/x'', ex_fileSuite ''/t/y'']] ex_model))) ''A''
             = Some p'
         \<and> map_of (files p') ''/t/x''
             = Some \<lparr>fid = 1, tf_file = ''/t/x'', entries = Some [EntryCase ex_case],
                     revision = 1\<rparr>)"
proof -
  have a: "map_of (projects ex_model) ''A'' = Some (the (map_of (projects ex_model) ''A''))"
    by (simp add: ex_model_def)
  have x: "map_of (files (the (map_of (projects ex_model) ''A''))) ''/t/x''
     = Some \<lparr>fid = 1, tf_file = ''/t/x'', entries = Some [EntryCase ex_case], revision = 1\<rparr>"
    by (simp add: ex_model_def)
  from updateFromRunningProjects_keeps_parsed
    [of "[ex_projectSuite ''A'' [ex_fileSuite ''/t/x'', ex_fileSuite ''/t/y'']]" ex_model "''A''"]
    a obtain p' where p': "map_of (projects (snd (updateFromRunningProjects
               [ex_projectSuite ''A'' [ex_fileSuite ''/t/x'', ex_fileSuite ''/t/y'']] ex_model))) ''A''
             = Some p'"
    "\<forall>f tf. map_of (files (the (map_of (projects ex_model) ''A''))) f = Some tf \<longrightarrow>
                (\<exists>tf'. map_of (files p') f = Some tf'
                   \<and> (entries tf \<noteq> None \<longrightarrow> tf' = tf)
                   \<and> (tf' \<noteq> tf \<longrightarrow> entries tf = None))"
    by blast
  from p'(2) x have "map_of (files p') ''/t/x''
      = Some \<lparr>fid = 1, tf_file = ''/t/x'', entries = Some [EntryCase ex_case], revision = 1\<rparr>"
    by fastforce
  with p'(1) x show ?thesis by blast
qed

section \<open>Targeted re-parse\<close>

lemma updateProjects_fileSuites_untouched:
  "updateProjects_fileSuites fss (ftd, p) = (r, ftd', p') \<Longrightarrow>
   \<forall>fs\<in>set fss. \<forall>l. location fs = Some l \<longrightarrow> loc_file l \<noteq> x \<Longrightarrow>
   (x \<in> set ftd \<longrightarrow> x \<in> set ftd') \<and> map_of (files p') x = map_of (files p) x"
proof (induction fss arbitrary: ftd p)
  case Nil
  then show ?case by simp
next
  case (Cons fs fss)
  show ?case
  proof (cases "location fs")
    case None
    with Cons.prems show ?thesis by simp
  next
    case (Some l)
    with Cons.prems(2) have ne: "loc_file l \<noteq> x" by simp
    from Some Cons.prems(1) have run: "updateProjects_fileSuites fss
        (removeAll (loc_file l) ftd, setFileEntries (loc_file l) (suiteEntries fs) p)
        = (r, ftd', p')" by simp
    from Cons.prems(2) have "\<forall>fs\<in>set fss. \<forall>l. location fs = Some l \<longrightarrow> loc_file l \<noteq> x"
      by simp
    from Cons.IH [OF run this] ne show ?thesis
      by (simp add: map_of_setFileEntries)
  qed
qed

lemma updateProjects_fileSuites_distinct:
  "updateProjects_fileSuites fss (ftd, p) = (r, ftd', p') \<Longrightarrow> distinct ftd \<Longrightarrow> distinct ftd'"
proof (induction fss arbitrary: ftd p)
  case Nil
  then show ?case by simp
next
  case (Cons fs fss)
  then show ?case
    by (cases "location fs") (auto simp: distinct_removeAll)
qed

lemma updateProjects_noEntries_other:
  "x \<notin> set ftd \<Longrightarrow> map_of (files (updateProjects_noEntries ftd p)) x = map_of (files p) x"
  by (induction ftd arbitrary: p) (auto simp: map_of_setFileEntries)

lemma updateProjects_noEntries_requested:
  "x \<in> set ftd \<Longrightarrow> distinct ftd \<Longrightarrow>
   map_of (files (updateProjects_noEntries ftd p)) x = map_option (setEntries []) (map_of (files p) x)"
proof (induction ftd arbitrary: p)
  case Nil
  then show ?case by simp
next
  case (Cons f ftd)
  show ?case
  proof (cases "f = x")
    case True
    with Cons.prems have "x \<notin> set ftd" by simp
    with True show ?thesis
      by (simp add: updateProjects_noEntries_other map_of_setFileEntries)
  next
    case False
    with Cons.prems Cons.IH [of "setFileEntries f [] p"] show ?thesis
      by (simp add: map_of_setFileEntries)
  qed
qed

lemma updateProjects_loop_lookup:
  "updateProjects_loop pss req ps = (Return u, ps') \<Longrightarrow> map_of ps k = Some p \<Longrightarrow>
   \<exists>p'. updateProjects_project pss req k p = (Return (), p') \<and> map_of ps' k = Some p'"
proof (induction ps arbitrary: ps')
  case Nil
  then show ?case by simp
next
  case (Cons kp ps)
  obtain k0 p0 where kp: "kp = (k0, p0)" by (cases kp)
  obtain r0 p0' where one: "updateProjects_project pss req k0 p0 = (r0, p0')"
    by (cases "updateProjects_project pss req k0 p0")
  obtain r1 rest' where rest: "updateProjects_loop pss req ps = (r1, rest')"
    by (cases "updateProjects_loop pss req ps")
  from Cons.prems(1) kp one rest have r0: "r0 = Return ()" and r1: "r1 = Return u"
    and ps': "ps' = (k0, p0') # rest'"
    by (cases r0; simp)+
  show ?case
  proof (cases "k = k0")
    case True
    with Cons.prems(2) kp have "p = p0" by simp
    with True one r0 ps' show ?thesis by simp
  next
    case False
    with Cons.prems(2) kp have "map_of ps k = Some p" by simp
    from Cons.IH [OF _ this, of rest'] rest r1 False ps' show ?thesis by simp
  qed
qed

lemma listTests_Return:
  "listTests c fs m = (Return errors, m') \<Longrightarrow>
   \<exists>u ps'. updateProjects_loop (suites (fst (pt_listTests c (config m) fs))) fs (projects m)
              = (Return u, ps')
     \<and> projects m' = ps' \<and> errors = snd (pt_listTests c (config m) fs)"
  by (auto simp: listTests_def updateProjects_def called_fields fire_fields
      split: prod.splits completion.splits)

text \<open>
  C5. Let \<open>listTests\<close> be called with the files \<open>F\<close> and return. For a known project \<open>P\<close>
  that holds a file for a path \<open>x\<close> of \<open>F\<close>: when the project suite found for \<open>P\<close> in the
  result (the first one of that project, if any) has no file suite located at \<open>x\<close>, the
  file of \<open>x\<close> in \<open>P\<close> holds the empty sequence afterwards; it is the same file object and
  its revision has grown by one.
\<close>

theorem listTests_confirms_emptiness:
  assumes "listTests c F m = (Return errors, m')"
    and "map_of (projects m) P = Some p"
    and "x \<in> set F"
    and "map_of (files p) x = Some tf"
    and "findProjectSuite P (suites (fst (pt_listTests c (config m) F))) = Return projectSuite"
    and "\<forall>fileSuite\<in>set (case projectSuite of None \<Rightarrow> [] | Some s \<Rightarrow> suites s).
           \<forall>l. location fileSuite = Some l \<longrightarrow> loc_file l \<noteq> x"
  shows "\<exists>p' tf'. map_of (projects m') P = Some p' \<and> map_of (files p') x = Some tf'
           \<and> entries tf' = Some [] \<and> revision tf' = revision tf + 1 \<and> fid tf' = fid tf"
proof -
  from listTests_Return [OF assms(1)] obtain u where
    loop: "updateProjects_loop (suites (fst (pt_listTests c (config m) F))) F (projects m)
             = (Return u, projects m')" by blast
  from updateProjects_loop_lookup [OF loop assms(2)] obtain p' where
    one: "updateProjects_project (suites (fst (pt_listTests c (config m) F))) F P p
            = (Return (), p')"
    and look: "map_of (projects m') P = Some p'" by blast
  obtain r ftd p1 where fss: "updateProjects_fileSuites
      (case projectSuite of None \<Rightarrow> [] | Some s \<Rightarrow> suites s) (Set_of F, p) = (r, ftd, p1)"
    by (cases "updateProjects_fileSuites
      (case projectSuite of None \<Rightarrow> [] | Some s \<Rightarrow> suites s) (Set_of F, p)") auto
  from one assms(5) fss have p': "p' = updateProjects_noEntries ftd p1"
    by (cases r) (simp_all add: updateProjects_project_def)
  from updateProjects_fileSuites_untouched [OF fss assms(6)] assms(3,4)
  have "x \<in> set ftd" and "map_of (files p1) x = Some tf"
    by (simp_all add: set_Set_of)
  moreover from updateProjects_fileSuites_distinct [OF fss] have "distinct ftd"
    by (simp add: distinct_Set_of)
  ultimately have "map_of (files p') x = Some (setEntries [] tf)"
    by (simp add: p' updateProjects_noEntries_requested)
  with look show ?thesis by (simp add: setEntries_simps)
qed

theorem listTests_confirms_emptiness_witness:
  "fst (listTests (ex_collaborators ex_report [ex_projectSuite ''A'' [ex_fileSuite ''/t/y'']])
          [''/t/x'', ''/t/y''] ex_model) = Return []
   \<and> map_option revision (map_of (files (the (map_of (projects ex_model) ''A''))) ''/t/x'') = Some 1
   \<and> (\<exists>p' tf'. map_of (projects (snd (listTests
            (ex_collaborators ex_report [ex_projectSuite ''A'' [ex_fileSuite ''/t/y'']])
            [''/t/x'', ''/t/y''] ex_model))) ''A'' = Some p'
         \<and> map_of (files p') ''/t/x'' = Some tf'
         \<and> entries tf' = Some [] \<and> revision tf' = 2 \<and> fid tf' = 1)"
proof -
  let ?c = "ex_collaborators ex_report [ex_projectSuite ''A'' [ex_fileSuite ''/t/y'']]"
  let ?F = "[''/t/x'', ''/t/y'']"
  let ?p = "the (map_of (projects ex_model) ''A'')"
  let ?tf = "\<lparr>fid = 1, tf_file = ''/t/x'', entries = Some [EntryCase ex_case], revision = 1\<rparr>"
  have run: "listTests ?c ?F ex_model = (Return [], snd (listTests ?c ?F ex_model))"
    by (simp add: listTests_def ex_collaborators_def updateProjects_def ex_model_def
        updateProjects_project_def ex_projectSuite_def ex_fileSuite_def called_def fire_def
        Set_of_def Set_add_def setFileEntries_def)
  have p: "map_of (projects ex_model) ''A'' = Some ?p"
    by (simp add: ex_model_def)
  have x: "map_of (files ?p) ''/t/x'' = Some ?tf"
    by (simp add: ex_model_def)
  have found: "findProjectSuite ''A'' (suites (fst (pt_listTests ?c (config ex_model) ?F)))
      = Return (Some (ex_projectSuite ''A'' [ex_fileSuite ''/t/y'']))"
    by (simp add: ex_collaborators_def ex_projectSuite_def)
  have none: "\<forall>fileSuite\<in>set (case Some (ex_projectSuite ''A'' [ex_fileSuite ''/t/y'']) of
                                None \<Rightarrow> [] | Some s \<Rightarrow> suites s).
           \<forall>l. location fileSuite = Some l \<longrightarrow> loc_file l \<noteq> ''/t/x''"
    by (simp add: ex_projectSuite_def ex_fileSuite_def)
  from listTests_confirms_emptiness [OF run p _ x found none]
  have "\<exists>p' tf'. map_of (projects (snd (listTests ?c ?F ex_model))) ''A'' = Some p'
         \<and> map_of (files p') ''/t/x'' = Some tf'
         \<and> entries tf' = Some [] \<and> revision tf' = 2 \<and> fid tf' = 1"
    by (simp add: numeral_2_eq_2)
  moreover have "fst (listTests ?c ?F ex_model) = Return []"
    by (subst run) simp
  moreover from x
  have "map_option revision (map_of (files ?p) ''/t/x'') = Some 1"
    by simp
  ultimately show ?thesis by blast
qed

lemma keys_filter_keys: "fst ` set (filter (\<lambda>kv. fst kv \<in> S) ps) = fst ` set ps \<inter> S"
  by (induction ps) auto

section \<open>Full discovery\<close>

lemma resolveProjects_frame:
  "resolveProjects c rps m = (rs, m') \<Longrightarrow>
     map pr_name rs = map pr_name rps \<and> projects m' = projects m \<and> nextId m' = nextId m
       \<and> trace m' = trace m"
proof (induction rps arbitrary: m rs)
  case Nil
  then show ?case by simp
next
  case (Cons pr rps)
  then show ?case
    by (fastforce split: prod.splits)
qed

lemma resolveProjects_called:
  "resolveProjects c rps (called e m)
     = (fst (resolveProjects c rps m), called e (snd (resolveProjects c rps m)))"
proof (induction rps arbitrary: m)
  case Nil
  show ?case by simp
next
  case (Cons pr rps)
  have comm: "(called e m)\<lparr>fileToSources := a, sourceToFile := b, config := cf\<rparr>
      = called e (m\<lparr>fileToSources := a, sourceToFile := b, config := cf\<rparr>)" for a b cf
    by (simp add: called_def)
  show ?case
    by (simp add: called_fields comm Cons.IH split: prod.split)
qed

lemma updateProject_create_fields:
  "updateProject_create fs (p, n) = (p', n') \<Longrightarrow>
     pid p' = pid p \<and> name p' = name p \<and> testDir p' = testDir p \<and> isEnabled p' = isEnabled p
       \<and> n \<le> n'"
proof (induction fs arbitrary: p n)
  case Nil
  then show ?case by simp
next
  case (Cons f fs)
  then show ?case
    by (cases "map_of (files p) f") (fastforce simp: createFile_fields)+
qed

lemma updateProject_create_keys:
  "updateProject_create fs (p, n) = (p', n') \<Longrightarrow>
     fst ` set (files p') = fst ` set (files p) \<union> set fs"
proof (induction fs arbitrary: p n)
  case Nil
  then show ?case by simp
next
  case (Cons f fs)
  show ?case
  proof (cases "map_of (files p) f")
    case None
    with Cons.prems have "updateProject_create fs (createFile n f p, Suc n) = (p', n')" by simp
    from Cons.IH [OF this] show ?thesis
      by (simp add: createFile_def dom_update)
  next
    case (Some tf)
    with Cons.prems have "updateProject_create fs (p, n) = (p', n')" by simp
    from Cons.IH [OF this] map_of_Some_key [OF Some] show ?thesis by auto
  qed
qed

lemma updateProject_create_kept:
  "updateProject_create fs (p, n) = (p', n') \<Longrightarrow> map_of (files p) f = Some tf \<Longrightarrow>
     map_of (files p') f = Some tf"
proof (induction fs arbitrary: p n)
  case Nil
  then show ?case by simp
next
  case (Cons g fs)
  show ?case
  proof (cases "map_of (files p) g")
    case None
    with Cons.prems have run: "updateProject_create fs (createFile n g p, Suc n) = (p', n')"
      and "f \<noteq> g" by auto
    with Cons.prems(2) have "map_of (files (createFile n g p)) f = Some tf"
      by (simp add: map_of_createFile)
    from Cons.IH [OF run this] show ?thesis .
  next
    case (Some tg)
    with Cons.prems have "updateProject_create fs (p, n) = (p', n')" by simp
    from Cons.IH [OF this Cons.prems(2)] show ?thesis .
  qed
qed

lemma updateProject_create_origin:
  "updateProject_create fs (p, n) = (p', n') \<Longrightarrow> map_of (files p') f = Some tf' \<Longrightarrow>
     map_of (files p) f = Some tf'
     \<or> (map_of (files p) f = None \<and> entries tf' = None \<and> revision tf' = 0 \<and> n \<le> fid tf'
          \<and> fid tf' < n')"
proof (induction fs arbitrary: p n)
  case Nil
  then show ?case by simp
next
  case (Cons g fs)
  show ?case
  proof (cases "map_of (files p) g")
    case None
    with Cons.prems have run: "updateProject_create fs (createFile n g p, Suc n) = (p', n')"
      by simp
    from updateProject_create_fields [OF run] have "Suc n \<le> n'" by simp
    with Cons.IH [OF run Cons.prems(2)] None show ?thesis
      by (auto simp: map_of_createFile newTestFile_simps split: if_splits)
  next
    case (Some tg)
    with Cons.prems have "updateProject_create fs (p, n) = (p', n')" by simp
    from Cons.IH [OF this Cons.prems(2)] show ?thesis .
  qed
qed

lemma updateProject_prune_fields:
  "pid (updateProject_prune keep p) = pid p" "name (updateProject_prune keep p) = name p"
  "testDir (updateProject_prune keep p) = testDir p"
  "isEnabled (updateProject_prune keep p) = isEnabled p"
  by (simp_all add: updateProject_prune_def)

lemma updateProject_fields:
  "updateProject p pr n = (p', n') \<Longrightarrow>
     pid p' = pid p \<and> name p' = name p \<and> testDir p' = testDir p \<and> isEnabled p' = isEnabled p
       \<and> n \<le> n'"
  by (auto simp: updateProject_def updateProject_prune_fields split: prod.splits
      dest: updateProject_create_fields)

lemma updateProject_keys:
  assumes "updateProject p pr n = (p', n')"
  shows "fst ` set (files p') = set (pr_files pr)"
proof -
  obtain p1 n1 where c: "updateProject_create (pr_files pr) (p, n) = (p1, n1)"
    by (cases "updateProject_create (pr_files pr) (p, n)")
  with assms have "p' = updateProject_prune (pr_files pr) p1"
    by (simp add: updateProject_def)
  then have "fst ` set (files p') = fst ` set (files p1) \<inter> set (pr_files pr)"
    by (simp only: files_updateProject_prune keys_filter_keys)
  with updateProject_create_keys [OF c] show ?thesis by auto
qed

lemma updateProject_kept:
  "updateProject p pr n = (p', n') \<Longrightarrow> f \<in> set (pr_files pr) \<Longrightarrow>
     map_of (files p) f = Some tf \<Longrightarrow> map_of (files p') f = Some tf"
  by (auto simp: updateProject_def files_updateProject_prune map_of_filter_keys
      split: prod.splits dest: updateProject_create_kept)

lemma updateProject_origin:
  "updateProject p pr n = (p', n') \<Longrightarrow> map_of (files p') f = Some tf' \<Longrightarrow>
     map_of (files p) f = Some tf'
     \<or> (map_of (files p) f = None \<and> entries tf' = None \<and> revision tf' = 0 \<and> n \<le> fid tf'
          \<and> fid tf' < n')"
  by (auto simp: updateProject_def files_updateProject_prune map_of_filter_keys
      split: prod.splits if_splits dest: updateProject_create_origin)

lemma listFiles_body_other:
  "k \<noteq> pr_name pr \<Longrightarrow> map_of (projects (listFiles_body pr m)) k = map_of (projects m) k"
  by (simp add: listFiles_body_def createProject_def storeProject_fields update_conv' Let_def
      split: option.split prod.split)

lemma listFiles_body_known:
  "map_of (projects m) (pr_name pr) = Some p \<Longrightarrow>
   map_of (projects (listFiles_body pr m)) (pr_name pr)
     = Some (fst (updateProject p pr (nextId m)))
   \<and> nextId (listFiles_body pr m) = snd (updateProject p pr (nextId m))"
  by (simp add: listFiles_body_def storeProject_fields update_conv')

lemma listFiles_body_unknown:
  "map_of (projects m) (pr_name pr) = None \<Longrightarrow>
   map_of (projects (listFiles_body pr m)) (pr_name pr)
     = Some (fst (updateProject
         \<lparr>pid = nextId m, name = pr_name pr, testDir = pr_testDir pr, files = [],
           isEnabled = True\<rparr> pr (Suc (nextId m))))
   \<and> nextId (listFiles_body pr m) = snd (updateProject
         \<lparr>pid = nextId m, name = pr_name pr, testDir = pr_testDir pr, files = [],
           isEnabled = True\<rparr> pr (Suc (nextId m)))"
  by (simp add: listFiles_body_def createProject_def storeProject_fields update_conv' Let_def)

lemma listFiles_body_keys:
  "fst ` set (projects (listFiles_body pr m)) = insert (pr_name pr) (fst ` set (projects m))"
  by (auto simp: listFiles_body_def createProject_def storeProject_fields dom_update Let_def
      split: option.split prod.split)

lemma listFiles_body_frame:
  "trace (listFiles_body pr m) = trace m \<and> config (listFiles_body pr m) = config m
   \<and> fileToSources (listFiles_body pr m) = fileToSources m
   \<and> sourceToFile (listFiles_body pr m) = sourceToFile m"
  by (simp add: listFiles_body_def createProject_def storeProject_fields Let_def
      split: option.split prod.split)

lemma listFiles_body_nextId: "nextId m \<le> nextId (listFiles_body pr m)"
proof (cases "map_of (projects m) (pr_name pr)")
  case None
  obtain p' n' where u: "updateProject
         \<lparr>pid = nextId m, name = pr_name pr, testDir = pr_testDir pr, files = [],
           isEnabled = True\<rparr> pr (Suc (nextId m)) = (p', n')"
    by (cases "updateProject
         \<lparr>pid = nextId m, name = pr_name pr, testDir = pr_testDir pr, files = [],
           isEnabled = True\<rparr> pr (Suc (nextId m))")
  from updateProject_fields [OF u] listFiles_body_unknown [OF None] u show ?thesis by simp
next
  case (Some p)
  obtain p' n' where u: "updateProject p pr (nextId m) = (p', n')"
    by (cases "updateProject p pr (nextId m)")
  from updateProject_fields [OF u] listFiles_body_known [OF Some] u show ?thesis by simp
qed

text \<open>What the loop body leaves under the name of the report it has processed.\<close>

lemma listFiles_body_at:
  "\<exists>p'. map_of (projects (listFiles_body pr m)) (pr_name pr) = Some p'
     \<and> fst ` set (files p') = set (pr_files pr)
     \<and> (case map_of (projects m) (pr_name pr) of
          None \<Rightarrow> isEnabled p' \<and> name p' = pr_name pr \<and> testDir p' = pr_testDir pr
                  \<and> pid p' = nextId m
                  \<and> (\<forall>f tf'. map_of (files p') f = Some tf' \<longrightarrow>
                        entries tf' = None \<and> revision tf' = 0)
        | Some p \<Rightarrow> pid p' = pid p \<and> isEnabled p' = isEnabled p \<and> name p' = name p
                  \<and> testDir p' = testDir p
                  \<and> (\<forall>f tf'. map_of (files p') f = Some tf' \<longrightarrow>
                        map_of (files p) f = Some tf'
                        \<or> (map_of (files p) f = None \<and> entries tf' = None \<and> revision tf' = 0))
                  \<and> (\<forall>f tf. f \<in> set (pr_files pr) \<longrightarrow> map_of (files p) f = Some tf \<longrightarrow>
                        map_of (files p') f = Some tf))"
proof (cases "map_of (projects m) (pr_name pr)")
  case None
  let ?new = "\<lparr>pid = nextId m, name = pr_name pr, testDir = pr_testDir pr, files = [],
           isEnabled = True\<rparr>"
  obtain p' n' where u: "updateProject ?new pr (Suc (nextId m)) = (p', n')"
    by (cases "updateProject ?new pr (Suc (nextId m))")
  have "entries tf' = None \<and> revision tf' = 0" if "map_of (files p') f = Some tf'" for f tf'
    using updateProject_origin [OF u that] by simp
  with listFiles_body_unknown [OF None] u updateProject_fields [OF u] updateProject_keys [OF u]
    None show ?thesis by simp
next
  case (Some p)
  obtain p' n' where u: "updateProject p pr (nextId m) = (p', n')"
    by (cases "updateProject p pr (nextId m)")
  have "map_of (files p) f = Some tf'
      \<or> (map_of (files p) f = None \<and> entries tf' = None \<and> revision tf' = 0)"
    if "map_of (files p') f = Some tf'" for f tf'
    using updateProject_origin [OF u that] by blast
  moreover have "map_of (files p') f = Some tf"
    if "f \<in> set (pr_files pr)" "map_of (files p) f = Some tf" for f tf
    using updateProject_kept [OF u that] .
  ultimately show ?thesis
    using listFiles_body_known [OF Some] u updateProject_fields [OF u] updateProject_keys [OF u]
      Some by simp
qed

lemma listFiles_update_snoc:
  "listFiles_update (rps @ [pr]) m = listFiles_body pr (listFiles_update rps m)"
  by (simp add: listFiles_update_def)

lemma listFiles_update_append:
  "listFiles_update (xs @ ys) m = listFiles_update ys (listFiles_update xs m)"
  by (simp add: listFiles_update_def)

lemma listFiles_update_Cons:
  "listFiles_update (pr # rps) m = listFiles_update rps (listFiles_body pr m)"
  by (simp add: listFiles_update_def)

lemma listFiles_update_keys:
  "fst ` set (projects (listFiles_update rps m)) = fst ` set (projects m) \<union> pr_name ` set rps"
  by (induction rps arbitrary: m) (auto simp: listFiles_update_def listFiles_body_keys)

lemma listFiles_update_other:
  "k \<notin> pr_name ` set rps \<Longrightarrow>
     map_of (projects (listFiles_update rps m)) k = map_of (projects m) k"
  by (induction rps arbitrary: m) (auto simp: listFiles_update_def listFiles_body_other)

lemma listFiles_update_frame:
  "trace (listFiles_update rps m) = trace m \<and> config (listFiles_update rps m) = config m
   \<and> fileToSources (listFiles_update rps m) = fileToSources m
   \<and> sourceToFile (listFiles_update rps m) = sourceToFile m"
  by (induction rps arbitrary: m) (auto simp: listFiles_update_def listFiles_body_frame)

lemma listFiles_update_nextId: "nextId m \<le> nextId (listFiles_update rps m)"
proof (induction rps arbitrary: m)
  case Nil
  show ?case by (simp add: listFiles_update_def)
next
  case (Cons pr rps)
  from Cons.IH [of "listFiles_body pr m"] listFiles_body_nextId [of m pr]
  show ?case by (simp add: listFiles_update_Cons)
qed

text \<open>
  Where the projects and files left by the update loop come from: a project is one the
  model held under that name, or was created enabled; a file is one that project held
  under that path, or is new and unparsed.
\<close>

lemma listFiles_update_origin:
  "map_of (projects (listFiles_update rps m)) k = Some p' \<Longrightarrow>
    (case map_of (projects m) k of
       None \<Rightarrow> isEnabled p' \<and> name p' = k
     | Some p \<Rightarrow> pid p' = pid p \<and> isEnabled p' = isEnabled p \<and> name p' = name p
                 \<and> testDir p' = testDir p)
    \<and> (\<forall>f tf'. map_of (files p') f = Some tf' \<longrightarrow>
          (\<exists>p. map_of (projects m) k = Some p \<and> map_of (files p) f = Some tf')
          \<or> (entries tf' = None \<and> revision tf' = 0))"
proof (induction rps arbitrary: p' rule: rev_induct)
  case Nil
  then show ?case by (simp add: listFiles_update_def)
next
  case (snoc pr rps)
  let ?mid = "listFiles_update rps m"
  show ?case
  proof (cases "k = pr_name pr")
    case False
    with snoc.prems have "map_of (projects ?mid) k = Some p'"
      by (simp add: listFiles_update_snoc listFiles_body_other)
    from snoc.IH [OF this] show ?thesis .
  next
    case True
    from listFiles_body_at [of pr ?mid] snoc.prems True
    have at: "case map_of (projects ?mid) k of
          None \<Rightarrow> isEnabled p' \<and> name p' = k
                  \<and> (\<forall>f tf'. map_of (files p') f = Some tf' \<longrightarrow>
                        entries tf' = None \<and> revision tf' = 0)
        | Some q \<Rightarrow> pid p' = pid q \<and> isEnabled p' = isEnabled q \<and> name p' = name q
                  \<and> testDir p' = testDir q
                  \<and> (\<forall>f tf'. map_of (files p') f = Some tf' \<longrightarrow>
                        map_of (files q) f = Some tf'
                        \<or> (map_of (files q) f = None \<and> entries tf' = None \<and> revision tf' = 0))"
      by (auto simp: listFiles_update_snoc split: option.splits)
    show ?thesis
    proof (cases "map_of (projects ?mid) k")
      case None
      then have "k \<notin> fst ` set (projects ?mid)" by (simp add: map_of_eq_None_iff)
      then have "k \<notin> fst ` set (projects m)" by (simp add: listFiles_update_keys)
      then have "map_of (projects m) k = None" by (simp add: map_of_eq_None_iff)
      with at None show ?thesis by simp
    next
      case (Some q)
      from snoc.IH [OF Some] at Some show ?thesis
        by (cases "map_of (projects m) k") fastforce+
    qed
  qed
qed

lemma listFiles_projects:
  assumes "error (pt_listFiles c (config m)) = None"
  shows "projects (snd (listFiles c m))
    = filter (\<lambda>kv. fst kv \<in> pr_name ` set (report_projects (pt_listFiles c (config m))))
        (projects (listFiles_update
           (fst (resolveProjects c (report_projects (pt_listFiles c (config m))) m))
           (called ListFilesCall
              (snd (resolveProjects c (report_projects (pt_listFiles c (config m))) m)))))"
proof -
  let ?rps = "report_projects (pt_listFiles c (config m))"
  obtain rs m1 where r: "resolveProjects c ?rps m = (rs, m1)"
    by (cases "resolveProjects c ?rps m")
  from resolveProjects_frame [OF r] have "set (map pr_name rs) = pr_name ` set ?rps"
    by simp
  with assms r show ?thesis
    by (simp add: listFiles_def Let_def resolveProjects_called fire_fields
        projects_listFiles_prune)
qed

text \<open>
  C2. When the report has no top-level error, after \<open>listFiles\<close> the keys of
  \<open>allProjects\<close> are exactly the project names of the report. A project found under a
  name the model did not know is new and enabled; a project under a known name is the
  old object (same identity, flag, name and test directory); a name outside the report
  has no project any more.
\<close>

theorem listFiles_reconciles_projects:
  assumes "error (pt_listFiles c (config m)) = None"
  shows "fst ` set (allProjects (snd (listFiles c m)))
           = pr_name ` set (report_projects (pt_listFiles c (config m)))
    \<and> (\<forall>n p'. map_of (allProjects (snd (listFiles c m))) n = Some p' \<longrightarrow>
          (case map_of (allProjects m) n of
             None \<Rightarrow> isEnabled p' \<and> name p' = n
           | Some p \<Rightarrow> pid p' = pid p \<and> isEnabled p' = isEnabled p \<and> name p' = name p
                       \<and> testDir p' = testDir p))
    \<and> (\<forall>n. n \<notin> pr_name ` set (report_projects (pt_listFiles c (config m))) \<longrightarrow>
          map_of (allProjects (snd (listFiles c m))) n = None)"
proof -
  let ?rps = "report_projects (pt_listFiles c (config m))"
  let ?N = "pr_name ` set ?rps"
  obtain rs m1 where r: "resolveProjects c ?rps m = (rs, m1)"
    by (cases "resolveProjects c ?rps m")
  let ?mid = "listFiles_update rs (called ListFilesCall m1)"
  from resolveProjects_frame [OF r] have names: "pr_name ` set rs = ?N"
    and m1: "projects m1 = projects m"
    by (simp_all flip: set_map)
  from listFiles_projects [OF assms] r
  have after: "projects (snd (listFiles c m)) = filter (\<lambda>kv. fst kv \<in> ?N) (projects ?mid)"
    by simp
  have "fst ` set (projects ?mid) = fst ` set (projects m) \<union> ?N"
    by (simp add: listFiles_update_keys called_fields m1 names)
  then have keys: "fst ` set (projects (snd (listFiles c m))) = ?N"
    unfolding after keys_filter_keys by auto
  have origin: "case map_of (projects m) n of
             None \<Rightarrow> isEnabled p' \<and> name p' = n
           | Some p \<Rightarrow> pid p' = pid p \<and> isEnabled p' = isEnabled p \<and> name p' = name p
                       \<and> testDir p' = testDir p"
    if "map_of (projects (snd (listFiles c m))) n = Some p'" for n p'
  proof -
    from that have "map_of (projects ?mid) n = Some p'"
      unfolding after map_of_filter_keys by (simp split: if_splits)
    from listFiles_update_origin [OF this] show ?thesis
      by (simp add: called_fields m1)
  qed
  have gone: "map_of (projects (snd (listFiles c m))) n = None" if "n \<notin> ?N" for n
    unfolding after map_of_filter_keys using that by simp
  from keys origin gone show ?thesis
    unfolding allProjects_def by blast
qed

text \<open>
  The files of a project after the pass, in terms of the report as the source-map loop
  has rewritten it: \<open>pr\<close> is the last rewritten entry carrying its project name.
\<close>

lemma listFiles_files_of_resolved:
  assumes "error (pt_listFiles c (config m)) = None"
    and "fst (resolveProjects c (report_projects (pt_listFiles c (config m))) m)
           = pre @ pr # post"
    and "pr_name pr \<notin> pr_name ` set post"
  shows "\<exists>p'. map_of (projects (snd (listFiles c m))) (pr_name pr) = Some p'
     \<and> fst ` set (files p') = set (pr_files pr)
     \<and> (\<forall>f. f \<notin> set (pr_files pr) \<longrightarrow> map_of (files p') f = None)
     \<and> (\<forall>f tf'. map_of (files p') f = Some tf' \<longrightarrow>
          (case Option.bind (map_of (projects m) (pr_name pr)) (\<lambda>p. map_of (files p) f) of
             None \<Rightarrow> entries tf' = None \<and> revision tf' = 0
           | Some tf \<Rightarrow> tf' = tf
               \<or> (pr_name pr \<in> pr_name ` set pre \<and> entries tf' = None \<and> revision tf' = 0)))"
proof -
  let ?rps = "report_projects (pt_listFiles c (config m))"
  let ?N = "pr_name ` set ?rps"
  let ?k = "pr_name pr"
  obtain rs m1 where r: "resolveProjects c ?rps m = (rs, m1)"
    by (cases "resolveProjects c ?rps m")
  with assms(2) have rs: "rs = pre @ pr # post" by simp
  let ?m0 = "called ListFilesCall m1"
  let ?mid = "listFiles_update pre ?m0"
  let ?at = "listFiles_body pr ?mid"
  let ?end = "listFiles_update rs ?m0"
  from resolveProjects_frame [OF r] have names: "pr_name ` set rs = ?N"
    and m1: "projects ?m0 = projects m"
    by (simp_all add: called_fields flip: set_map)
  from listFiles_projects [OF assms(1)] r
  have after: "projects (snd (listFiles c m)) = filter (\<lambda>kv. fst kv \<in> ?N) (projects ?end)"
    by simp
  have "?end = listFiles_update post ?at"
    by (simp add: rs listFiles_update_append listFiles_update_Cons)
  with assms(3) have "map_of (projects ?end) ?k = map_of (projects ?at) ?k"
    by (simp add: listFiles_update_other)
  moreover from names rs have "?k \<in> ?N" by auto
  ultimately have look: "map_of (projects (snd (listFiles c m))) ?k = map_of (projects ?at) ?k"
    unfolding after map_of_filter_keys by simp
  from listFiles_body_at [of pr ?mid] obtain p' where
    p': "map_of (projects ?at) ?k = Some p'"
    and keys: "fst ` set (files p') = set (pr_files pr)"
    and at: "case map_of (projects ?mid) ?k of
          None \<Rightarrow> (\<forall>f tf'. map_of (files p') f = Some tf' \<longrightarrow>
                        entries tf' = None \<and> revision tf' = 0)
        | Some q \<Rightarrow> (\<forall>f tf'. map_of (files p') f = Some tf' \<longrightarrow>
                        map_of (files q) f = Some tf'
                        \<or> (map_of (files q) f = None \<and> entries tf' = None \<and> revision tf' = 0))"
    by (auto split: option.splits)
  have first: "map_of (projects ?mid) ?k = map_of (projects m) ?k"
    if "?k \<notin> pr_name ` set pre"
    using that by (simp add: listFiles_update_other m1)
  have files: "case Option.bind (map_of (projects m) ?k) (\<lambda>p. map_of (files p) f) of
             None \<Rightarrow> entries tf' = None \<and> revision tf' = 0
           | Some tf \<Rightarrow> tf' = tf
               \<or> (?k \<in> pr_name ` set pre \<and> entries tf' = None \<and> revision tf' = 0)"
    if tf': "map_of (files p') f = Some tf'" for f tf'
  proof (cases "map_of (projects ?mid) ?k")
    case None
    with at tf' have fresh: "entries tf' = None \<and> revision tf' = 0" by simp
    show ?thesis
    proof (cases "?k \<in> pr_name ` set pre")
      case True
      with fresh show ?thesis by (simp split: option.split)
    next
      case False
      from first [OF False] None have "map_of (projects m) ?k = None" by simp
      with fresh show ?thesis by simp
    qed
  next
    case (Some q)
    with at tf' have q: "map_of (files q) f = Some tf'
        \<or> (map_of (files q) f = None \<and> entries tf' = None \<and> revision tf' = 0)" by simp
    from listFiles_update_origin [OF Some] have
      origin: "map_of (files q) f = Some tf' \<Longrightarrow>
          (\<exists>p. map_of (projects m) ?k = Some p \<and> map_of (files p) f = Some tf')
          \<or> (entries tf' = None \<and> revision tf' = 0)"
      by (simp add: m1)
    show ?thesis
    proof (cases "?k \<in> pr_name ` set pre")
      case True
      with q origin show ?thesis
        by (auto split: option.splits Option.bind_splits)
    next
      case False
      from first [OF False] Some have "map_of (projects m) ?k = Some q" by simp
      with q show ?thesis by auto
    qed
  qed
  have none: "map_of (files p') f = None" if "f \<notin> set (pr_files pr)" for f
    using that keys by (simp add: map_of_eq_None_iff)
  from look p' keys files none show ?thesis by auto
qed

theorem listFiles_reconciles_projects_witness:
  "error (pt_listFiles (ex_collaborators ex_report []) (config ex_model)) = None
   \<and> fst ` set (allProjects ex_model) = {''A'', ''B''}
   \<and> fst ` set (allProjects (snd (listFiles (ex_collaborators ex_report []) ex_model))) = {''A''}
   \<and> map_of (allProjects (snd (listFiles (ex_collaborators ex_report []) ex_model))) ''B'' = None"
proof -
  let ?c = "ex_collaborators ex_report []"
  have h: "error (pt_listFiles ?c (config ex_model)) = None"
    by (simp add: ex_collaborators_def ex_report_def)
  have r: "pr_name ` set (report_projects (pt_listFiles ?c (config ex_model))) = {''A''}"
    by (simp add: ex_collaborators_def ex_report_def)
  note main = listFiles_reconciles_projects [OF h]
  from main [THEN conjunct1] r
  have 1: "fst ` set (allProjects (snd (listFiles ?c ex_model))) = {''A''}"
    by (rule trans)
  have "''B'' \<notin> pr_name ` set (report_projects (pt_listFiles ?c (config ex_model)))"
    unfolding r by simp
  with main [THEN conjunct2, THEN conjunct2, THEN spec, of "''B''"]
  have 2: "map_of (allProjects (snd (listFiles ?c ex_model))) ''B'' = None"
    by (rule mp)
  have 3: "fst ` set (allProjects ex_model) = {''A'', ''B''}"
    by (simp add: allProjects_def ex_model_def)
  from h 3 1 2 show ?thesis by (intro conjI)
qed

text \<open>The source-map loop of the model computes what the specification asks for.\<close>

lemma sourcesOf_foldl:
  "foldl (\<lambda>(acc, a, b) f.
             case resolveSourceMap c f a b of (sources, a', b') \<Rightarrow> (acc @ sources, a', b'))
          (acc, a, b) fs
     = (case resolveFiles c fs (a, b) of (srcs, a', b') \<Rightarrow> (acc @ srcs, a', b'))"
proof (induction fs arbitrary: acc a b)
  case Nil
  show ?case by simp
next
  case (Cons f fs)
  obtain s a1 b1 where r: "resolveSourceMap c f a b = (s, a1, b1)"
    by (cases "resolveSourceMap c f a b")
  obtain rest a2 b2 where rf: "resolveFiles c fs (a1, b1) = (rest, a2, b2)"
    by (cases "resolveFiles c fs (a1, b1)")
  from Cons.IH [of "acc @ s" a1 b1] r rf show ?case by simp
qed

lemma resolveFiles_sourcesOf: "resolveFiles c fs caches = sourcesOf c fs caches"
proof -
  obtain a b where caches: "caches = (a, b)" by (cases caches)
  show ?thesis
    unfolding sourcesOf_def caches sourcesOf_foldl by (simp split: prod.split)
qed

lemma resolveFiles_append:
  "resolveFiles c (xs @ ys) (a, b)
     = (case resolveFiles c xs (a, b) of
          (s1, a1, b1) \<Rightarrow>
            (case resolveFiles c ys (a1, b1) of (s2, a2, b2) \<Rightarrow> (s1 @ s2, a2, b2)))"
  by (induction xs arbitrary: a b) (simp_all split: prod.split)

lemma resolveFiles_pure:
  "\<forall>f a b. fst (resolveSourceMap c f a b) = resolve f \<Longrightarrow>
     fst (resolveFiles c fs (a, b)) = concat (map resolve fs)"
proof (induction fs arbitrary: a b)
  case Nil
  show ?case by simp
next
  case (Cons f fs)
  obtain s a' b' where r: "resolveSourceMap c f a b = (s, a', b')"
    by (cases "resolveSourceMap c f a b")
  with Cons.prems have s: "s = resolve f" by (metis fst_conv)
  obtain rest a2 b2 where rf: "resolveFiles c fs (a', b') = (rest, a2, b2)"
    by (cases "resolveFiles c fs (a', b')")
  from Cons.IH [OF Cons.prems, of a' b'] r rf s show ?case by simp
qed

lemma resolveProjects_Cons:
  "fst (resolveProjects c (pr # prs) m)
     = pr\<lparr>pr_files := fst (resolveFiles c (pr_files pr) (fileToSources m, sourceToFile m))\<rparr>
         # fst (resolveProjects c prs (snd (resolveProjects c [pr] m)))"
  by (simp split: prod.split)

lemma resolveProjects_append:
  "resolveProjects c (xs @ ys) m
     = (fst (resolveProjects c xs m) @ fst (resolveProjects c ys (snd (resolveProjects c xs m))),
        snd (resolveProjects c ys (snd (resolveProjects c xs m))))"
proof (induction xs arbitrary: m)
  case Nil
  show ?case by simp
next
  case (Cons pr xs)
  show ?case
    by (simp add: Cons.IH split: prod.split)
qed

lemma resolveProjects_caches:
  "(fileToSources (snd (resolveProjects c xs m)), sourceToFile (snd (resolveProjects c xs m)))
     = snd (resolveFiles c (concat (map pr_files xs)) (fileToSources m, sourceToFile m))"
proof (induction xs arbitrary: m)
  case Nil
  show ?case by simp
next
  case (Cons pr xs)
  obtain fs a b where r: "resolveFiles c (pr_files pr) (fileToSources m, sourceToFile m)
      = (fs, a, b)"
    by (cases "resolveFiles c (pr_files pr) (fileToSources m, sourceToFile m)") auto
  let ?m1 = "m\<lparr>fileToSources := a, sourceToFile := b,
                    config := (config m)\<lparr>testIdAttributeName :=
                      (case pr_use pr of None \<Rightarrow> None | Some u \<Rightarrow> testIdAttribute u)\<rparr>\<rparr>"
  obtain rest a2 b2 where rf: "resolveFiles c (concat (map pr_files xs)) (a, b) = (rest, a2, b2)"
    by (cases "resolveFiles c (concat (map pr_files xs)) (a, b)")
  obtain rs m2 where rp: "resolveProjects c xs ?m1 = (rs, m2)"
    by (cases "resolveProjects c xs ?m1")
  from Cons.IH [of ?m1] rf rp have "fileToSources m2 = a2 \<and> sourceToFile m2 = b2" by simp
  with r rf rp show ?case
    by (simp add: resolveFiles_append)
qed

lemma resolveProjects_names:
  "pr_name ` set (fst (resolveProjects c rps m)) = pr_name ` set rps"
proof -
  obtain rs m' where r: "resolveProjects c rps m = (rs, m')"
    by (cases "resolveProjects c rps m")
  from resolveProjects_frame [OF r] have "set (map pr_name rs) = set (map pr_name rps)"
    by simp
  with r show ?thesis by simp
qed

text \<open>
  C3. Let the report have no top-level error, and let \<open>pr\<close> be the last entry of the
  report carrying its project name. After \<open>listFiles\<close> the project of that name holds
  exactly the sources that the source-map resolver answers for the files of \<open>pr\<close>, asked
  in the order of the report with the caches as the files of the entries before \<open>pr\<close>
  have left them; when the answer of the resolver for a file does not depend on the
  caches, these are the sources of the files of \<open>pr\<close>. A path the project did not hold
  before the call has a new file, unparsed and at revision 0; a path it held has the old
  file, untouched, unless an earlier entry of the same name had dropped it, in which case
  the file is new. Any other path is gone, with its entries.
\<close>

theorem listFiles_reconciles_files:
  assumes "error (pt_listFiles c (config m)) = None"
    and "report_projects (pt_listFiles c (config m)) = pre @ pr # post"
    and "pr_name pr \<notin> pr_name ` set post"
  shows "\<exists>p'. map_of (projects (snd (listFiles c m))) (pr_name pr) = Some p'
     \<and> fst ` set (files p')
         = set (fst (sourcesOf c (pr_files pr)
             (snd (sourcesOf c (concat (map pr_files pre)) (fileToSources m, sourceToFile m)))))
     \<and> ((\<forall>f a b. fst (resolveSourceMap c f a b) = resolve f) \<longrightarrow>
           fst ` set (files p') = (\<Union>f\<in>set (pr_files pr). set (resolve f)))
     \<and> (\<forall>f. f \<notin> set (fst (sourcesOf c (pr_files pr)
             (snd (sourcesOf c (concat (map pr_files pre)) (fileToSources m, sourceToFile m)))))
           \<longrightarrow> map_of (files p') f = None)
     \<and> (\<forall>f tf'. map_of (files p') f = Some tf' \<longrightarrow>
          (case Option.bind (map_of (projects m) (pr_name pr)) (\<lambda>p. map_of (files p) f) of
             None \<Rightarrow> entries tf' = None \<and> revision tf' = 0
           | Some tf \<Rightarrow> tf' = tf
               \<or> (pr_name pr \<in> pr_name ` set pre \<and> entries tf' = None \<and> revision tf' = 0)))"
proof -
  let ?m1 = "snd (resolveProjects c pre m)"
  let ?caches = "snd (sourcesOf c (concat (map pr_files pre)) (fileToSources m, sourceToFile m))"
  let ?srcs = "fst (sourcesOf c (pr_files pr) ?caches)"
  let ?pre' = "fst (resolveProjects c pre m)"
  let ?post' = "fst (resolveProjects c post (snd (resolveProjects c [pr] ?m1)))"
  have caches: "(fileToSources ?m1, sourceToFile ?m1) = ?caches"
    by (simp only: resolveProjects_caches resolveFiles_sourcesOf)
  have "fst (resolveProjects c (pr # post) ?m1) = pr\<lparr>pr_files := ?srcs\<rparr> # ?post'"
    unfolding resolveProjects_Cons caches resolveFiles_sourcesOf ..
  with assms(2) have resolved:
    "fst (resolveProjects c (report_projects (pt_listFiles c (config m))) m)
       = ?pre' @ pr\<lparr>pr_files := ?srcs\<rparr> # ?post'"
    by (simp add: resolveProjects_append)
  have names: "pr_name ` set ?pre' = pr_name ` set pre" "pr_name ` set ?post' = pr_name ` set post"
    by (rule resolveProjects_names)+
  from assms(3) have last: "pr_name (pr\<lparr>pr_files := ?srcs\<rparr>) \<notin> pr_name ` set ?post'"
    unfolding names by simp
  have nm: "pr_name (pr\<lparr>pr_files := ?srcs\<rparr>) = pr_name pr"
    and pf: "pr_files (pr\<lparr>pr_files := ?srcs\<rparr>) = ?srcs" by simp_all
  from listFiles_files_of_resolved [OF assms(1) resolved last, unfolded names nm pf]
  obtain p' where
    look: "map_of (projects (snd (listFiles c m))) (pr_name pr) = Some p'"
    and keys: "fst ` set (files p') = set ?srcs"
    and gone: "\<forall>f. f \<notin> set ?srcs \<longrightarrow> map_of (files p') f = None"
    and origin: "\<forall>f tf'. map_of (files p') f = Some tf' \<longrightarrow>
          (case Option.bind (map_of (projects m) (pr_name pr)) (\<lambda>p. map_of (files p) f) of
             None \<Rightarrow> entries tf' = None \<and> revision tf' = 0
           | Some tf \<Rightarrow> tf' = tf
               \<or> (pr_name pr \<in> pr_name ` set pre \<and> entries tf' = None \<and> revision tf' = 0))"
    by blast
  have pure: "fst ` set (files p') = (\<Union>f\<in>set (pr_files pr). set (resolve f))"
    if "\<forall>f a b. fst (resolveSourceMap c f a b) = resolve f"
  proof -
    obtain a b where ab: "?caches = (a, b)" by (cases ?caches)
    from resolveFiles_pure [OF that, of "pr_files pr" a b]
    have "?srcs = concat (map resolve (pr_files pr))"
      by (simp only: ab resolveFiles_sourcesOf)
    with keys show ?thesis by simp
  qed
  from look keys pure gone origin show ?thesis by blast
qed

theorem listFiles_reconciles_files_witness:
  "error (pt_listFiles (ex_sourceMaps ex_compiled) (config ex_model)) = None
   \<and> map pr_files (report_projects (pt_listFiles (ex_sourceMaps ex_compiled) (config ex_model)))
       = [[''/o/x'']]
   \<and> map fst (files (the (map_of (projects ex_model) ''A''))) = [''/t/x'', ''/t/y'']
   \<and> (\<exists>p'. map_of (projects (snd (listFiles (ex_sourceMaps ex_compiled) ex_model))) ''A''
              = Some p'
         \<and> fst ` set (files p') = {''/t/x'', ''/t/z''}
         \<and> map_of (files p') ''/o/x'' = None
         \<and> map_of (files p') ''/t/y'' = None
         \<and> map_of (files p') ''/t/x''
              = Some \<lparr>fid = 1, tf_file = ''/t/x'', entries = Some [EntryCase ex_case],
                      revision = 1\<rparr>
         \<and> map_option entries (map_of (files p') ''/t/z'') = Some None)"
proof -
  let ?c = "ex_sourceMaps ex_compiled"
  let ?pr = "\<lparr>pr_name = ''A'', pr_testDir = ''/t'', pr_use = None, pr_files = [''/o/x'']\<rparr>"
  let ?tf = "\<lparr>fid = 1, tf_file = ''/t/x'', entries = Some [EntryCase ex_case], revision = 1\<rparr>"
  let ?none = "[] :: project_config_with_files list"
  have h: "error (pt_listFiles ?c (config ex_model)) = None"
    by (simp add: ex_sourceMaps_def ex_compiled_def)
  have r: "report_projects (pt_listFiles ?c (config ex_model)) = ?none @ ?pr # ?none"
    by (simp add: ex_sourceMaps_def ex_compiled_def)
  have l: "pr_name ?pr \<notin> pr_name ` set ?none" by simp
  have srcs: "fst (sourcesOf ?c (pr_files ?pr)
      (snd (sourcesOf ?c (concat (map pr_files ?none))
         (fileToSources ex_model, sourceToFile ex_model)))) = [''/t/x'', ''/t/z'']"
    by (simp add: sourcesOf_def ex_sourceMaps_def)
  have oldx: "Option.bind (map_of (projects ex_model) (pr_name ?pr))
      (\<lambda>p. map_of (files p) ''/t/x'') = Some ?tf"
    by (simp add: ex_model_def)
  have oldz: "Option.bind (map_of (projects ex_model) (pr_name ?pr))
      (\<lambda>p. map_of (files p) ''/t/z'') = None"
    by (simp add: ex_model_def)
  from listFiles_reconciles_files [OF h r l, unfolded srcs, of "\<lambda>f. [f]"] obtain p' where
    p': "map_of (projects (snd (listFiles ?c ex_model))) (pr_name ?pr) = Some p'"
    and keys: "fst ` set (files p') = set [''/t/x'', ''/t/z'']"
    and gone: "\<forall>f. f \<notin> set [''/t/x'', ''/t/z''] \<longrightarrow> map_of (files p') f = None"
    and origin: "\<forall>f tf'. map_of (files p') f = Some tf' \<longrightarrow>
          (case Option.bind (map_of (projects ex_model) (pr_name ?pr))
                  (\<lambda>p. map_of (files p) f) of
             None \<Rightarrow> entries tf' = None \<and> revision tf' = 0
           | Some tf \<Rightarrow> tf' = tf
               \<or> (pr_name ?pr \<in> pr_name ` set ?none \<and> entries tf' = None
                    \<and> revision tf' = 0))"
    by blast
  from p' have look: "map_of (projects (snd (listFiles ?c ex_model))) ''A'' = Some p'"
    by simp
  from keys have keys': "fst ` set (files p') = {''/t/x'', ''/t/z''}" by simp
  from gone have o: "map_of (files p') ''/o/x'' = None" and y: "map_of (files p') ''/t/y'' = None"
    by simp_all
  from keys' have "map_of (files p') ''/t/x'' \<noteq> None" "map_of (files p') ''/t/z'' \<noteq> None"
    unfolding map_of_eq_None_iff by simp_all
  then obtain tx tz where tx: "map_of (files p') ''/t/x'' = Some tx"
    and tz: "map_of (files p') ''/t/z'' = Some tz"
    by blast
  from origin tx have "case Option.bind (map_of (projects ex_model) (pr_name ?pr))
                  (\<lambda>p. map_of (files p) ''/t/x'') of
             None \<Rightarrow> entries tx = None \<and> revision tx = 0
           | Some tf \<Rightarrow> tx = tf
               \<or> (pr_name ?pr \<in> pr_name ` set ?none \<and> entries tx = None \<and> revision tx = 0)"
    by blast
  then have x: "tx = ?tf" unfolding oldx by simp
  from origin tz have "case Option.bind (map_of (projects ex_model) (pr_name ?pr))
                  (\<lambda>p. map_of (files p) ''/t/z'') of
             None \<Rightarrow> entries tz = None \<and> revision tz = 0
           | Some tf \<Rightarrow> tz = tf
               \<or> (pr_name ?pr \<in> pr_name ` set ?none \<and> entries tz = None \<and> revision tz = 0)"
    by blast
  then have z: "entries tz = None" unfolding oldz by simp
  have old: "map fst (files (the (map_of (projects ex_model) ''A''))) = [''/t/x'', ''/t/y'']"
    by (simp add: ex_model_def)
  have raw: "map pr_files (report_projects (pt_listFiles ?c (config ex_model))) = [[''/o/x'']]"
    by (simp add: ex_sourceMaps_def ex_compiled_def)
  from look keys' o y tx x tz z have "\<exists>p'. map_of (projects (snd (listFiles ?c ex_model))) ''A''
              = Some p'
         \<and> fst ` set (files p') = {''/t/x'', ''/t/z''}
         \<and> map_of (files p') ''/o/x'' = None
         \<and> map_of (files p') ''/t/y'' = None
         \<and> map_of (files p') ''/t/x'' = Some ?tf
         \<and> map_option entries (map_of (files p') ''/t/z'') = Some None"
    by (intro exI [of _ p']) simp
  with h raw old show ?thesis by (intro conjI)
qed

section \<open>Workspace changes\<close>

lemma workspaceChanged_deleteFiles_result:
  "workspaceChanged_deleteFiles del (p, mc) = (p', mc') \<Longrightarrow>
     mc' = (mc \<or> (\<exists>f\<in>set del. f \<in> fst ` set (files p)))
     \<and> testDir p' = testDir p \<and> pid p' = pid p \<and> name p' = name p \<and> isEnabled p' = isEnabled p
     \<and> files p' = filter (\<lambda>kv. fst kv \<notin> set del) (files p)"
proof (induction del arbitrary: p mc)
  case Nil
  then show ?case by simp
next
  case (Cons f del)
  show ?case
  proof (cases "f \<in> fst ` set (files p)")
    case True
    with Cons.prems have run: "workspaceChanged_deleteFiles del
        (p\<lparr>files := AList.delete f (files p)\<rparr>, True) = (p', mc')" by simp
    have "filter (\<lambda>kv. fst kv \<notin> set del) (filter (\<lambda>kv. fst kv \<noteq> f) (files p))
        = filter (\<lambda>kv. fst kv \<notin> set (f # del)) (files p)"
      unfolding filter_filter by (intro filter_cong) auto
    with Cons.IH [OF run] True show ?thesis
      by (simp add: delete_as_filter)
  next
    case False
    with Cons.prems have run: "workspaceChanged_deleteFiles del (p, mc) = (p', mc')" by simp
    have "filter (\<lambda>kv. fst kv \<notin> set del) (files p)
        = filter (\<lambda>kv. fst kv \<notin> set (f # del)) (files p)"
      using False by (intro filter_cong) auto
    with Cons.IH [OF run] False show ?thesis by simp
  qed
qed

lemma workspaceChanged_deleted_result:
  "workspaceChanged_deleted del ps mc = (ps', mc') \<Longrightarrow>
     mc' = (mc \<or> (\<exists>kp\<in>set ps. \<exists>f\<in>set del. f \<in> fst ` set (files (snd kp))))
     \<and> map (\<lambda>kp. (fst kp, testDir (snd kp))) ps' = map (\<lambda>kp. (fst kp, testDir (snd kp))) ps"
proof (induction ps arbitrary: mc ps' mc')
  case Nil
  then show ?case by simp
next
  case (Cons kp ps)
  obtain k p where kp: "kp = (k, p)" by (cases kp)
  obtain p1 mc1 where one: "workspaceChanged_deleteFiles del (p, mc) = (p1, mc1)"
    by (cases "workspaceChanged_deleteFiles del (p, mc)")
  obtain rest mc2 where rest: "workspaceChanged_deleted del ps mc1 = (rest, mc2)"
    by (cases "workspaceChanged_deleted del ps mc1")
  from Cons.prems kp one rest have ps': "ps' = (k, p1) # rest" and mc': "mc' = mc2"
    by simp_all
  from workspaceChanged_deleteFiles_result [OF one]
  have mc1: "mc1 = (mc \<or> (\<exists>f\<in>set del. f \<in> fst ` set (files p)))"
    and td: "testDir p1 = testDir p" by blast+
  from Cons.IH [OF rest]
  have mc2: "mc2 = (mc1 \<or> (\<exists>kp\<in>set ps. \<exists>f\<in>set del. f \<in> fst ` set (files (snd kp))))"
    and maps: "map (\<lambda>kp. (fst kp, testDir (snd kp))) rest
      = map (\<lambda>kp. (fst kp, testDir (snd kp))) ps" by blast+
  show ?case
    unfolding ps' mc' mc2 mc1 kp using td maps by auto
qed

lemma hasMatchingFiles_iff:
  "hasMatchingFiles cr ps
     = (\<exists>d\<in>set (map (\<lambda>kp. testDir (snd kp)) ps). \<exists>f\<in>set cr. prefix d f)"
  unfolding hasMatchingFiles_def list_ex_iff case_prod_unfold by simp

lemma hasMatchingFiles_testDirs:
  assumes "map (\<lambda>kp. (fst kp, testDir (snd kp))) ps' = map (\<lambda>kp. (fst kp, testDir (snd kp))) ps"
  shows "hasMatchingFiles cr ps' = hasMatchingFiles cr ps"
proof -
  from assms have "map snd (map (\<lambda>kp. (fst kp, testDir (snd kp))) ps')
      = map snd (map (\<lambda>kp. (fst kp, testDir (snd kp))) ps)" by (rule arg_cong)
  then have "map (\<lambda>kp. testDir (snd kp)) ps' = map (\<lambda>kp. testDir (snd kp)) ps"
    by (simp add: comp_def)
  then show ?thesis unfolding hasMatchingFiles_iff by (rule arg_cong)
qed

lemma workspaceChanged_step1_result:
  "workspaceChanged_step1 del m = (m1, mc) \<Longrightarrow>
     mc = (\<exists>kp\<in>set (projects m). \<exists>f\<in>set del. f \<in> fst ` set (files (snd kp)))
     \<and> config m1 = config m \<and> trace m1 = trace m \<and> nextId m1 = nextId m
     \<and> hasMatchingFiles cr (projects m1) = hasMatchingFiles cr (projects m)"
proof (cases "del = []")
  case True
  then show "workspaceChanged_step1 del m = (m1, mc) \<Longrightarrow> ?thesis"
    by (auto simp: workspaceChanged_step1_def)
next
  case False
  assume run: "workspaceChanged_step1 del m = (m1, mc)"
  obtain ps' mc' where d: "workspaceChanged_deleted del (projects m) False = (ps', mc')"
    by (cases "workspaceChanged_deleted del (projects m) False")
  with run False have m1: "m1 = m\<lparr>projects := ps'\<rparr>" and mc: "mc = mc'"
    by (simp_all add: workspaceChanged_step1_def)
  from workspaceChanged_deleted_result [OF d] hasMatchingFiles_testDirs [of ps' "projects m" cr]
  show ?thesis by (simp add: m1 mc)
qed

lemma listFiles_notifications:
  "notifications (snd (listFiles c m))
     = notifications m + (if error (pt_listFiles c (config m)) = None then 1 else 0)"
proof (cases "error (pt_listFiles c (config m))")
  case (Some e)
  then show ?thesis
    by (simp add: listFiles_def Let_def notifications_called)
next
  case None
  obtain rs m1 where r: "resolveProjects c (report_projects (pt_listFiles c (config m)))
      (called ListFilesCall m) = (rs, m1)"
    by (cases "resolveProjects c (report_projects (pt_listFiles c (config m)))
      (called ListFilesCall m)")
  from resolveProjects_frame [OF r] have "trace m1 = trace m @ [ListFilesCall]"
    by (simp add: called_fields)
  with None r show ?thesis
    by (simp add: listFiles_def Let_def notifications_def fire_fields listFiles_prune_def
        listFiles_update_frame)
qed

lemma listTests_notifications:
  "listTests c fs m = (Return errors, m') \<Longrightarrow> notifications m' = Suc (notifications m)"
  by (auto simp: listTests_def updateProjects_def notifications_def fire_def called_def
      split: prod.splits completion.splits)

lemma workspaceChanged_step2_notifications:
  "notifications (workspaceChanged_step2 c cr m)
     = notifications m
       + (if cr \<noteq> [] \<and> hasMatchingFiles cr (projects m)
             \<and> error (pt_listFiles c (config m)) = None then 1 else 0)"
  by (simp add: workspaceChanged_step2_def listFiles_notifications)

lemma workspaceChanged_step3_notifications:
  "workspaceChanged_step3 c ch m = (Return u, m') \<Longrightarrow>
     notifications m' = notifications m
       + (if ch \<noteq> [] \<and> filesToLoad ch (projects m) \<noteq> [] then 1 else 0)"
  by (auto simp: workspaceChanged_step3_def split: if_splits prod.splits completion.splits
      dest: listTests_notifications)

lemma filesToLoad_Nil: "filesToLoad [] ps = []"
  unfolding filesToLoad_def by (induction ps) (simp_all add: case_prod_unfold)

text \<open>
  C6 fails as stated: the notification at the end of \<open>workspaceChanged\<close> depends on
  \<^verbatim>\<open>modelChanged\<close> alone. Here \<^verbatim>\<open>/t/y\<close> is deleted and \<^verbatim>\<open>/t/z\<close> is created under the test
  directory of project A: the full discovery fires its notification and the end of the
  pass fires a second one.
\<close>

theorem workspaceChanged_fires_twice:
  "fst (workspaceChanged (ex_collaborators ex_report [])
          \<lparr>created = [''/t/z''], changed = [], deleted = [''/t/y'']\<rparr> ex_model) = Return ()
   \<and> trace (snd (workspaceChanged (ex_collaborators ex_report [])
          \<lparr>created = [''/t/z''], changed = [], deleted = [''/t/y'']\<rparr> ex_model))
       = [ListFilesCall, DidUpdate, DidUpdate]
   \<and> notifications ex_model = 0
   \<and> notifications (snd (workspaceChanged (ex_collaborators ex_report [])
          \<lparr>created = [''/t/z''], changed = [], deleted = [''/t/y'']\<rparr> ex_model)) = 2"
  by (simp add: workspaceChanged_def mapFilesToSources_def Set_add_def
      workspaceChanged_step1_def workspaceChanged_step2_def workspaceChanged_step3_def
      hasMatchingFiles_def filesToLoad_def listFiles_def called_def fire_def
      listFiles_update_def listFiles_body_def createProject_def storeProject_def
      updateProject_def updateProject_prune_def createFile_def newTestFile_def
      listFiles_prune_def notifications_def ex_collaborators_def ex_report_def ex_model_def
      Let_def)

text \<open>
  C6, amended. A call of \<open>workspaceChanged\<close> that returns fires at most three change
  notifications: one by the full discovery it triggers (when a created path lies under a
  test directory and the report has no error), one by the targeted re-parse it triggers
  (when the request set is not empty), and one at the end of the pass exactly when some
  project held one of the deleted paths. The removals of all files in all projects share
  that last notification, and it is fired whether or not the two passes have fired theirs.
\<close>

theorem workspaceChanged_notifications:
  assumes "workspaceChanged c change m = (Return (), m')"
  shows "notifications m' = notifications m
      + (if mapFilesToSources m (created change) \<noteq> []
            \<and> hasMatchingFiles (mapFilesToSources m (created change)) (projects m)
            \<and> error (pt_listFiles c (config m)) = None then 1 else 0)
      + (if filesToLoad (mapFilesToSources m (changed change))
              (projects (workspaceChanged_step2 c (mapFilesToSources m (created change))
                 (fst (workspaceChanged_step1 (mapFilesToSources m (deleted change)) m)))) \<noteq> []
         then 1 else 0)
      + (if \<exists>kp\<in>set (projects m). \<exists>f\<in>set (mapFilesToSources m (deleted change)).
               f \<in> fst ` set (files (snd kp)) then 1 else 0)
    \<and> notifications m' \<le> notifications m + 3"
proof -
  let ?cr = "mapFilesToSources m (created change)"
  let ?ch = "mapFilesToSources m (changed change)"
  let ?del = "mapFilesToSources m (deleted change)"
  obtain m1 mc where s1: "workspaceChanged_step1 ?del m = (m1, mc)"
    by (cases "workspaceChanged_step1 ?del m")
  let ?m2 = "workspaceChanged_step2 c ?cr m1"
  obtain r m3 where s3: "workspaceChanged_step3 c ?ch ?m2 = (r, m3)"
    by (cases "workspaceChanged_step3 c ?ch ?m2")
  from assms s1 s3 have r: "r = Return ()" and m': "m' = (if mc then fire m3 else m3)"
    by (auto simp: workspaceChanged_def Let_def split: completion.splits)
  from workspaceChanged_step1_result [OF s1, of ?cr]
  have mc: "mc = (\<exists>kp\<in>set (projects m). \<exists>f\<in>set ?del. f \<in> fst ` set (files (snd kp)))"
    and cfg: "config m1 = config m" and n1: "notifications m1 = notifications m"
    and hm: "hasMatchingFiles ?cr (projects m1) = hasMatchingFiles ?cr (projects m)"
    by (simp_all add: notifications_def)
  have n2: "notifications ?m2 = notifications m
      + (if ?cr \<noteq> [] \<and> hasMatchingFiles ?cr (projects m)
            \<and> error (pt_listFiles c (config m)) = None then 1 else 0)"
    unfolding workspaceChanged_step2_notifications hm cfg n1 ..
  from workspaceChanged_step3_notifications [OF s3 [unfolded r]]
  have n3: "notifications m3 = notifications ?m2
      + (if filesToLoad ?ch (projects ?m2) \<noteq> [] then 1 else 0)"
    by (cases "?ch = []") (simp_all add: filesToLoad_Nil)
  have n4: "notifications m' = notifications m3 + (if mc then 1 else 0)"
    by (simp add: m' notifications_fire)
  from s1 have "fst (workspaceChanged_step1 ?del m) = m1" by simp
  with n2 n3 n4 mc show ?thesis by simp
qed

theorem workspaceChanged_notifications_witness:
  "workspaceChanged (ex_collaborators ex_report [])
      \<lparr>created = [], changed = [], deleted = [''/t/x'', ''/t/y'']\<rparr> ex_model
     = (Return (), ex_model\<lparr>projects :=
          [(''A'', \<lparr>pid = 0, name = ''A'', testDir = ''/t'', files = [], isEnabled = True\<rparr>),
           (''B'', \<lparr>pid = 3, name = ''B'', testDir = ''/u'', files = [], isEnabled = False\<rparr>)],
          trace := [DidUpdate]\<rparr>)
   \<and> notifications (ex_model\<lparr>projects :=
          [(''A'', \<lparr>pid = 0, name = ''A'', testDir = ''/t'', files = [], isEnabled = True\<rparr>),
           (''B'', \<lparr>pid = 3, name = ''B'', testDir = ''/u'', files = [], isEnabled = False\<rparr>)],
          trace := [DidUpdate]\<rparr>) = notifications ex_model + 1"
proof -
  have run: "workspaceChanged (ex_collaborators ex_report [])
      \<lparr>created = [], changed = [], deleted = [''/t/x'', ''/t/y'']\<rparr> ex_model
     = (Return (), ex_model\<lparr>projects :=
          [(''A'', \<lparr>pid = 0, name = ''A'', testDir = ''/t'', files = [], isEnabled = True\<rparr>),
           (''B'', \<lparr>pid = 3, name = ''B'', testDir = ''/u'', files = [], isEnabled = False\<rparr>)],
          trace := [DidUpdate]\<rparr>)"
    by (simp add: workspaceChanged_def mapFilesToSources_def Set_add_def
      workspaceChanged_step1_def workspaceChanged_step2_def workspaceChanged_step3_def
      fire_def ex_model_def Let_def)
  from workspaceChanged_notifications [OF run] run show ?thesis
    by (simp add: mapFilesToSources_def Set_add_def filesToLoad_Nil ex_model_def
        workspaceChanged_step2_def)
qed

text \<open>The paths one project adds to the request set: those it holds with parsed entries.\<close>

lemma filesToLoad_project:
  "set (fold (\<lambda>f acc'. case map_of (files p) f of
                  None \<Rightarrow> acc'
                | Some testFile \<Rightarrow> if entries testFile = None then acc' else Set_add f acc')
           ch acc)
     = set acc \<union> {f \<in> set ch. \<exists>tf. map_of (files p) f = Some tf \<and> entries tf \<noteq> None}"
  by (induction ch arbitrary: acc) (auto simp: set_Set_add split: option.splits)

lemma filesToLoad_project_distinct:
  "distinct acc \<Longrightarrow>
   distinct (fold (\<lambda>f acc'. case map_of (files p) f of
                  None \<Rightarrow> acc'
                | Some testFile \<Rightarrow> if entries testFile = None then acc' else Set_add f acc')
           ch acc)"
  by (induction ch arbitrary: acc) (auto simp: distinct_Set_add split: option.splits)

lemma filesToLoad_fold:
  "set (fold (\<lambda>(k, p) acc.
            fold (\<lambda>f acc'.
                    case map_of (files p) f of
                      None \<Rightarrow> acc'
                    | Some testFile \<Rightarrow> if entries testFile = None then acc' else Set_add f acc')
                 ch acc) ps acc0)
     = set acc0 \<union> (\<Union>kp\<in>set ps. {f \<in> set ch. \<exists>tf. map_of (files (snd kp)) f = Some tf
                                         \<and> entries tf \<noteq> None})"
proof (induction ps arbitrary: acc0)
  case Nil
  show ?case by simp
next
  case (Cons kp ps)
  obtain k p where kp: "kp = (k, p)" by (cases kp)
  show ?case
    unfolding kp fold_simps prod.case Cons.IH filesToLoad_project by auto
qed

lemma filesToLoad_fold_distinct:
  "distinct acc0 \<Longrightarrow>
   distinct (fold (\<lambda>(k, p) acc.
            fold (\<lambda>f acc'.
                    case map_of (files p) f of
                      None \<Rightarrow> acc'
                    | Some testFile \<Rightarrow> if entries testFile = None then acc' else Set_add f acc')
                 ch acc) ps acc0)"
proof (induction ps arbitrary: acc0)
  case Nil
  then show ?case by simp
next
  case (Cons kp ps)
  obtain k p where kp: "kp = (k, p)" by (cases kp)
  from Cons.prems show ?case
    unfolding kp fold_simps prod.case
    by (intro Cons.IH filesToLoad_project_distinct)
qed

lemma set_filesToLoad:
  "set (filesToLoad ch ps)
     = (\<Union>kp\<in>set ps. {f \<in> set ch. \<exists>tf. map_of (files (snd kp)) f = Some tf
                                         \<and> entries tf \<noteq> None})"
  unfolding filesToLoad_def filesToLoad_fold by simp

lemma distinct_filesToLoad: "distinct (filesToLoad ch ps)"
  unfolding filesToLoad_def by (rule filesToLoad_fold_distinct) simp

lemma listFiles_trace:
  "trace (snd (listFiles c m))
     = trace m @ ListFilesCall #
         (if error (pt_listFiles c (config m)) = None then [DidUpdate] else [])"
proof (cases "error (pt_listFiles c (config m))")
  case (Some e)
  then show ?thesis
    by (simp add: listFiles_def Let_def called_fields)
next
  case None
  obtain rs m1 where r: "resolveProjects c (report_projects (pt_listFiles c (config m)))
      (called ListFilesCall m) = (rs, m1)"
    by (cases "resolveProjects c (report_projects (pt_listFiles c (config m)))
      (called ListFilesCall m)")
  from resolveProjects_frame [OF r] have "trace m1 = trace m @ [ListFilesCall]"
    by (simp add: called_fields)
  with None r show ?thesis
    by (simp add: listFiles_def Let_def fire_fields listFiles_prune_def listFiles_update_frame)
qed

lemma listTests_trace:
  "trace (snd (listTests c fs m))
     = trace m @ ListTestsCall fs #
         (case fst (listTests c fs m) of Return errors \<Rightarrow> [DidUpdate] | Throw e \<Rightarrow> [])"
  by (auto simp: listTests_def updateProjects_def fire_def called_def
      split: prod.splits completion.splits)

lemma workspaceChanged_step1_trace: "trace (fst (workspaceChanged_step1 del m)) = trace m"
  by (simp add: workspaceChanged_step1_def split: prod.split)

lemma workspaceChanged_step2_trace:
  "filter (\<lambda>e. e \<noteq> DidUpdate \<and> e \<noteq> ListFilesCall) (trace (workspaceChanged_step2 c cr m))
     = filter (\<lambda>e. e \<noteq> DidUpdate \<and> e \<noteq> ListFilesCall) (trace m)"
  by (simp add: workspaceChanged_step2_def listFiles_trace)

lemma workspaceChanged_step3_trace:
  "filter (\<lambda>e. e \<noteq> DidUpdate \<and> e \<noteq> ListFilesCall)
      (trace (snd (workspaceChanged_step3 c ch m)))
     = filter (\<lambda>e. e \<noteq> DidUpdate \<and> e \<noteq> ListFilesCall) (trace m)
         @ (if filesToLoad ch (projects m) = [] then []
            else [ListTestsCall (filesToLoad ch (projects m))])"
proof (cases "ch \<noteq> [] \<and> filesToLoad ch (projects m) \<noteq> []")
  case True
  obtain r m' where l: "listTests c (filesToLoad ch (projects m)) m = (r, m')"
    by (cases "listTests c (filesToLoad ch (projects m)) m")
  from listTests_trace [of c "filesToLoad ch (projects m)" m] l
  have "trace m' = trace m @ ListTestsCall (filesToLoad ch (projects m)) #
         (case r of Return errors \<Rightarrow> [DidUpdate] | Throw e \<Rightarrow> [])" by simp
  with True l show ?thesis
    by (cases r) (simp_all add: workspaceChanged_step3_def)
next
  case False
  then have "filesToLoad ch (projects m) = []"
    by (cases "ch = []") (simp_all add: filesToLoad_Nil)
  with False show ?thesis
    by (simp add: workspaceChanged_step3_def)
qed

lemma workspaceChanged_trace:
  "filter (\<lambda>e. e \<noteq> DidUpdate \<and> e \<noteq> ListFilesCall) (trace (snd (workspaceChanged c change m)))
     = filter (\<lambda>e. e \<noteq> DidUpdate \<and> e \<noteq> ListFilesCall)
         (trace (snd (workspaceChanged_step3 c (mapFilesToSources m (changed change))
            (workspaceChanged_step2 c (mapFilesToSources m (created change))
               (fst (workspaceChanged_step1 (mapFilesToSources m (deleted change)) m))))))"
  by (simp add: workspaceChanged_def Let_def fire_fields
      split: prod.split completion.split)

text \<open>
  C9. In \<open>workspaceChanged\<close> the request set of the targeted re-parse is built from the
  model as the created and deleted paths have left it. Each project contributes the
  changed paths for which it holds a file with parsed entries, and nothing else: a path
  whose file in the project is unparsed, or that has no file there, is not added on
  behalf of that project. \<open>listTests\<close> is called once, with that set, when it is not
  empty, and is not called otherwise.
\<close>

theorem workspaceChanged_reparse_request:
  "(let ch = mapFilesToSources m (changed change);
        m2 = workspaceChanged_step2 c (mapFilesToSources m (created change))
               (fst (workspaceChanged_step1 (mapFilesToSources m (deleted change)) m));
        request = filesToLoad ch (projects m2)
    in set request
         = (\<Union>kp\<in>set (projects m2).
              {f \<in> set ch. \<exists>tf. map_of (files (snd kp)) f = Some tf \<and> entries tf \<noteq> None})
       \<and> distinct request
       \<and> filter (\<lambda>e. e \<noteq> DidUpdate \<and> e \<noteq> ListFilesCall)
            (trace (snd (workspaceChanged c change m)))
           = filter (\<lambda>e. e \<noteq> DidUpdate \<and> e \<noteq> ListFilesCall) (trace m)
               @ (if request = [] then [] else [ListTestsCall request]))"
  unfolding Let_def workspaceChanged_trace workspaceChanged_step3_trace
    workspaceChanged_step2_trace workspaceChanged_step1_trace
  by (simp add: set_filesToLoad distinct_filesToLoad)

theorem workspaceChanged_reparse_request_witness:
  "filesToLoad [''/t/x'', ''/t/y'', ''/t/q''] (projects ex_model) = [''/t/x'']
   \<and> map_option entries (map_of (files (the (map_of (projects ex_model) ''A''))) ''/t/y'')
       = Some None
   \<and> filter (\<lambda>e. e \<noteq> DidUpdate \<and> e \<noteq> ListFilesCall)
        (trace (snd (workspaceChanged (ex_collaborators ex_report [])
           \<lparr>created = [], changed = [''/t/x'', ''/t/y'', ''/t/q''], deleted = []\<rparr> ex_model)))
       = [ListTestsCall [''/t/x'']]"
proof -
  let ?change = "\<lparr>created = [], changed = [''/t/x'', ''/t/y'', ''/t/q''], deleted = []\<rparr>"
  let ?c = "ex_collaborators ex_report []"
  have ch: "mapFilesToSources ex_model (changed ?change) = [''/t/x'', ''/t/y'', ''/t/q'']"
    by (simp add: mapFilesToSources_def Set_add_def ex_model_def)
  have m2: "workspaceChanged_step2 ?c (mapFilesToSources ex_model (created ?change))
               (fst (workspaceChanged_step1 (mapFilesToSources ex_model (deleted ?change))
                  ex_model)) = ex_model"
    by (simp add: mapFilesToSources_def workspaceChanged_step1_def workspaceChanged_step2_def)
  have req: "filesToLoad [''/t/x'', ''/t/y'', ''/t/q''] (projects ex_model) = [''/t/x'']"
    by (simp add: filesToLoad_def Set_add_def ex_model_def)
  have y: "map_option entries (map_of (files (the (map_of (projects ex_model) ''A''))) ''/t/y'')
       = Some None"
    by (simp add: ex_model_def)
  have tr: "trace ex_model = []" by (simp add: ex_model_def)
  from workspaceChanged_reparse_request [of ex_model ?change ?c]
  have "filter (\<lambda>e. e \<noteq> DidUpdate \<and> e \<noteq> ListFilesCall)
        (trace (snd (workspaceChanged ?c ?change ex_model))) = [ListTestsCall [''/t/x'']]"
    unfolding Let_def ch m2 req tr by simp
  with req y show ?thesis by (intro conjI)
qed

section \<open>Revisions along the life of a file\<close>

lemma evolves_refl: "evolves fs n fs n"
  by (auto simp: evolves_def)

lemma evolves_trans:
  assumes "evolves fs n fs1 n1" and "evolves fs1 n1 fs2 n2"
  shows "evolves fs n fs2 n2"
proof -
  from assms have le: "n \<le> n1" "n1 \<le> n2" by (simp_all add: evolves_def)
  then have "[n..<n2] = [n..<n1] @ [n1..<n2]"
    by (metis le_Suc_ex upt_add_eq_append)
  then have split: "mset [n..<n2] = mset [n..<n1] + mset [n1..<n2]" by simp
  from assms have "mset (map fid fs2) \<subseteq># mset (map fid fs1) + mset [n1..<n2]"
    and "mset (map fid fs1) \<subseteq># mset (map fid fs) + mset [n..<n1]"
    by (simp_all add: evolves_def)
  then have ids: "mset (map fid fs2) \<subseteq># mset (map fid fs) + mset [n..<n2]"
    unfolding split
    by (metis (no_types, lifting) add.assoc subset_mset.add_right_mono subset_mset.order_trans)
  have "(\<exists>tf\<in>set fs. fid tf = fid tf2 \<and> revision tf \<le> revision tf2) \<or> n \<le> fid tf2"
    if "tf2 \<in> set fs2" for tf2
  proof -
    from assms(2) that consider tf1 where "tf1 \<in> set fs1" "fid tf1 = fid tf2"
      "revision tf1 \<le> revision tf2" | "n1 \<le> fid tf2"
      by (auto simp: evolves_def)
    then show ?thesis
    proof cases
      case 1
      with assms(1) show ?thesis
        by (fastforce simp: evolves_def)
    next
      case 2
      with le show ?thesis by simp
    qed
  qed
  with le ids show ?thesis by (simp add: evolves_def)
qed

lemma evolves_sub:
  assumes "mset fs' \<subseteq># mset fs"
  shows "evolves fs n fs' n"
proof -
  from assms have "image_mset fid (mset fs') \<subseteq># image_mset fid (mset fs)"
    by (rule image_mset_subseteq_mono)
  then have "mset (map fid fs') \<subseteq># mset (map fid fs)" by simp
  moreover from assms have "set fs' \<subseteq> set fs"
    by (metis set_mset_mono set_mset_mset)
  ultimately show ?thesis
    unfolding evolves_def by auto
qed

lemma evolves_context:
  assumes "evolves fs n fs' n'"
  shows "evolves (A @ fs @ B) n (A @ fs' @ B) n'"
proof -
  from assms have "mset (map fid fs') \<subseteq># mset (map fid fs) + mset [n..<n']"
    by (simp add: evolves_def)
  then have "mset (map fid A) + (mset (map fid fs') + mset (map fid B))
      \<subseteq># mset (map fid A) + ((mset (map fid fs) + mset [n..<n']) + mset (map fid B))"
    by (intro subset_mset.add_mono subset_mset.order_refl)
  then have "mset (map fid (A @ fs' @ B)) \<subseteq># mset (map fid (A @ fs @ B)) + mset [n..<n']"
    by (simp add: ac_simps)
  with assms show ?thesis
    unfolding evolves_def by auto
qed

lemma evolves_append:
  assumes "evolves a n a' n" and "evolves b n b' n"
  shows "evolves (a @ b) n (a' @ b') n"
proof -
  from assms have "mset (map fid a') \<subseteq># mset (map fid a)" "mset (map fid b') \<subseteq># mset (map fid b)"
    by (simp_all add: evolves_def)
  then have "mset (map fid (a' @ b')) \<subseteq># mset (map fid (a @ b))"
    by (simp add: subset_mset.add_mono)
  with assms show ?thesis
    unfolding evolves_def by auto
qed

lemma evolves_replace:
  assumes "fid tf' = fid tf" and "revision tf \<le> revision tf'"
  shows "evolves (A @ tf # B) n (A @ tf' # B) n"
  using assms unfolding evolves_def by auto

lemma evolves_new: "evolves fs n (fs @ [newTestFile n f]) (Suc n)"
  unfolding evolves_def by (auto simp: newTestFile_simps)

lemma update_in_place:
  "map_of al k = Some v \<Longrightarrow>
     \<exists>pre post. al = pre @ (k, v) # post \<and> AList.update k w al = pre @ (k, w) # post"
proof (induction al)
  case Nil
  then show ?case by simp
next
  case (Cons kv al)
  show ?case
  proof (cases "fst kv = k")
    case True
    with Cons.prems have "kv = (k, v)" by (cases kv) simp
    then have "kv # al = [] @ (k, v) # al \<and> AList.update k w (kv # al) = [] @ (k, w) # al"
      by simp
    then show ?thesis by blast
  next
    case False
    with Cons.prems have "map_of al k = Some v" by (cases kv) auto
    from Cons.IH [OF this] obtain pre post where
      "al = pre @ (k, v) # post" "AList.update k w al = pre @ (k, w) # post" by blast
    with False have "kv # al = (kv # pre) @ (k, v) # post
        \<and> AList.update k w (kv # al) = (kv # pre) @ (k, w) # post" by simp
    then show ?thesis by blast
  qed
qed

lemma update_absent: "map_of al k = None \<Longrightarrow> AList.update k w al = al @ [(k, w)]"
  by (induction al) (auto split: if_splits)

lemma mset_map_filter_sub: "mset (map g (filter P xs)) \<subseteq># mset (map g xs)"
  by (induction xs) (auto intro: subset_mset.order_trans)

lemma evolves_filter: "evolves (map snd fl) n (map snd (filter P fl)) n"
  by (rule evolves_sub) (rule mset_map_filter_sub)

lemma setFileEntries_evolves:
  "evolves (map snd (files p)) n (map snd (files (setFileEntries f es p))) n"
proof (cases "map_of (files p) f")
  case None
  then show ?thesis by (simp add: setFileEntries_def evolves_refl)
next
  case (Some tf)
  from update_in_place [OF Some, of "setEntries es tf"] obtain pre post where
    "files p = pre @ (f, tf) # post"
    "AList.update f (setEntries es tf) (files p) = pre @ (f, setEntries es tf) # post"
    by blast
  with Some have "map snd (files p) = map snd pre @ tf # map snd post"
    "map snd (files (setFileEntries f es p))
       = map snd pre @ setEntries es tf # map snd post"
    by (simp_all add: setFileEntries_def)
  then show ?thesis
    by (simp add: evolves_replace setEntries_simps)
qed

lemma createFile_evolves:
  "map_of (files p) f = None \<Longrightarrow>
     evolves (map snd (files p)) n (map snd (files (createFile n f p))) (Suc n)"
  by (simp add: createFile_def update_absent evolves_new)

lemma updateProject_create_evolves:
  "updateProject_create fs (p, n) = (p', n') \<Longrightarrow>
     evolves (map snd (files p)) n (map snd (files p')) n'"
proof (induction fs arbitrary: p n)
  case Nil
  then show ?case by (simp add: evolves_refl)
next
  case (Cons f fs)
  show ?case
  proof (cases "map_of (files p) f")
    case None
    with Cons.prems have "updateProject_create fs (createFile n f p, Suc n) = (p', n')" by simp
    from evolves_trans [OF createFile_evolves [OF None] Cons.IH [OF this]] show ?thesis .
  next
    case (Some tf)
    with Cons.prems have "updateProject_create fs (p, n) = (p', n')" by simp
    from Cons.IH [OF this] show ?thesis .
  qed
qed

lemma updateProject_evolves:
  assumes "updateProject p pr n = (p', n')"
  shows "evolves (map snd (files p)) n (map snd (files p')) n'"
proof -
  obtain p1 n1 where c: "updateProject_create (pr_files pr) (p, n) = (p1, n1)"
    by (cases "updateProject_create (pr_files pr) (p, n)")
  with assms have "p' = updateProject_prune (pr_files pr) p1" and "n' = n1"
    by (simp_all add: updateProject_def)
  then have "evolves (map snd (files p1)) n1 (map snd (files p')) n'"
    by (simp add: files_updateProject_prune evolves_filter)
  from evolves_trans [OF updateProject_create_evolves [OF c] this] show ?thesis .
qed

lemma updateFromRunningProject_loop_evolves:
  "updateFromRunningProject_loop fss (p, n) = (r, p', n') \<Longrightarrow>
     evolves (map snd (files p)) n (map snd (files p')) n'"
proof (induction fss arbitrary: p n)
  case Nil
  then show ?case by (simp add: evolves_refl)
next
  case (Cons fs fss)
  show ?case
  proof (cases "length (allTests fs) = 0")
    case True
    with Cons.prems have "updateFromRunningProject_loop fss (p, n) = (r, p', n')" by simp
    from Cons.IH [OF this] show ?thesis .
  next
    case nonempty: False
    show ?thesis
    proof (cases "location fs")
      case None
      with nonempty Cons.prems show ?thesis by (simp add: evolves_refl)
    next
      case (Some l)
      show ?thesis
      proof (cases "map_of (files p) (loc_file l)")
        case None
        with nonempty Some Cons.prems have run:
          "updateFromRunningProject_loop fss
             (setFileEntries (loc_file l) (suiteEntries fs) (createFile n (loc_file l) p), Suc n)
           = (r, p', n')"
          by (simp add: newTestFile_simps)
        from evolves_trans [OF createFile_evolves [OF None] setFileEntries_evolves]
        have "evolves (map snd (files p)) n
          (map snd (files (setFileEntries (loc_file l) (suiteEntries fs)
             (createFile n (loc_file l) p)))) (Suc n)" .
        from evolves_trans [OF this Cons.IH [OF run]] show ?thesis .
      next
        case found: (Some testFile)
        show ?thesis
        proof (cases "entries testFile = None")
          case False
          with nonempty Some found Cons.prems have
            "updateFromRunningProject_loop fss (p, n) = (r, p', n')" by simp
          from Cons.IH [OF this] show ?thesis .
        next
          case True
          with nonempty Some found Cons.prems have run:
            "updateFromRunningProject_loop fss
               (setFileEntries (loc_file l) (suiteEntries fs) p, n) = (r, p', n')"
            by simp
          from evolves_trans [OF setFileEntries_evolves Cons.IH [OF run]] show ?thesis .
        qed
      qed
    qed
  qed
qed

lemma updateProjects_fileSuites_evolves:
  "updateProjects_fileSuites fss (ftd, p) = (r, ftd', p') \<Longrightarrow>
     evolves (map snd (files p)) n (map snd (files p')) n"
proof (induction fss arbitrary: ftd p)
  case Nil
  then show ?case by (simp add: evolves_refl)
next
  case (Cons fs fss)
  show ?case
  proof (cases "location fs")
    case None
    with Cons.prems show ?thesis by (simp add: evolves_refl)
  next
    case (Some l)
    with Cons.prems have "updateProjects_fileSuites fss
        (removeAll (loc_file l) ftd, setFileEntries (loc_file l) (suiteEntries fs) p)
        = (r, ftd', p')" by simp
    from evolves_trans [OF setFileEntries_evolves Cons.IH [OF this]] show ?thesis .
  qed
qed

lemma updateProjects_noEntries_evolves:
  "evolves (map snd (files p)) n (map snd (files (updateProjects_noEntries ftd p))) n"
proof (induction ftd arbitrary: p)
  case Nil
  show ?case by (simp add: evolves_refl)
next
  case (Cons f ftd)
  from evolves_trans [OF setFileEntries_evolves Cons.IH] show ?case by simp
qed

lemma updateProjects_project_evolves:
  assumes "updateProjects_project pss req k p = (r, p')"
  shows "evolves (map snd (files p)) n (map snd (files p')) n"
proof (cases "findProjectSuite k pss")
  case (Throw e)
  with assms show ?thesis by (simp add: updateProjects_project_def evolves_refl)
next
  case (Return ps)
  obtain r1 ftd p1 where f: "updateProjects_fileSuites
      (case ps of None \<Rightarrow> [] | Some s \<Rightarrow> suites s) (Set_of req, p) = (r1, ftd, p1)"
    by (cases "updateProjects_fileSuites
      (case ps of None \<Rightarrow> [] | Some s \<Rightarrow> suites s) (Set_of req, p)") auto
  note e1 = updateProjects_fileSuites_evolves [OF f, of n]
  show ?thesis
  proof (cases r1)
    case (Throw e)
    with assms Return f e1 show ?thesis by (simp add: updateProjects_project_def)
  next
    case r1: (Return u)
    with assms Return f have "p' = updateProjects_noEntries ftd p1"
      by (simp add: updateProjects_project_def)
    with evolves_trans [OF e1 updateProjects_noEntries_evolves] show ?thesis by simp
  qed
qed

lemma workspaceChanged_deleteFiles_evolves:
  assumes "workspaceChanged_deleteFiles del (p, mc) = (p', mc')"
  shows "evolves (map snd (files p)) n (map snd (files p')) n"
  using workspaceChanged_deleteFiles_result [OF assms] by (simp add: evolves_filter)

lemma evolves_later: "n \<le> n' \<Longrightarrow> evolves fs n fs n'"
  by (auto simp: evolves_def)

lemma allFiles_fire: "allFiles (fire m) = allFiles m"
  by (simp add: allFiles_def fire_fields)

lemma allFiles_called: "allFiles (called e m) = allFiles m"
  by (simp add: allFiles_def called_fields)

lemma storeProject_evolves:
  assumes "map_of (projects m) k = Some p"
    and "evolves (map snd (files p)) (nextId m) (map snd (files p')) n'"
  shows "evolves (allFiles m) (nextId m) (allFiles (storeProject k (p', n') m)) n'"
proof -
  from update_in_place [OF assms(1), of p'] obtain pre post where
    "projects m = pre @ (k, p) # post"
    "AList.update k p' (projects m) = pre @ (k, p') # post" by blast
  then have "allFiles m = concat (map (\<lambda>(k, p). map snd (files p)) pre)
        @ map snd (files p) @ concat (map (\<lambda>(k, p). map snd (files p)) post)"
    and "allFiles (storeProject k (p', n') m) = concat (map (\<lambda>(k, p). map snd (files p)) pre)
        @ map snd (files p') @ concat (map (\<lambda>(k, p). map snd (files p)) post)"
    by (simp_all add: allFiles_def storeProject_fields)
  with evolves_context [OF assms(2)] show ?thesis by simp
qed

lemma listFiles_body_evolves:
  "evolves (allFiles m) (nextId m) (allFiles (listFiles_body pr m)) (nextId (listFiles_body pr m))"
proof (cases "map_of (projects m) (pr_name pr)")
  case (Some p)
  obtain p' n' where u: "updateProject p pr (nextId m) = (p', n')"
    by (cases "updateProject p pr (nextId m)")
  from storeProject_evolves [OF Some updateProject_evolves [OF u]] Some u show ?thesis
    by (simp add: listFiles_body_def storeProject_fields)
next
  case None
  let ?new = "\<lparr>pid = nextId m, name = pr_name pr, testDir = pr_testDir pr, files = [],
           isEnabled = True\<rparr>"
  let ?m1 = "m\<lparr>projects := AList.update (pr_name pr) ?new (projects m),
                nextId := Suc (nextId m)\<rparr>"
  obtain p' n' where u: "updateProject ?new pr (Suc (nextId m)) = (p', n')"
    by (cases "updateProject ?new pr (Suc (nextId m))")
  have body: "listFiles_body pr m = storeProject (pr_name pr) (p', n') ?m1"
    using None u by (simp add: listFiles_body_def createProject_def Let_def)
  have "allFiles ?m1 = allFiles m"
    using None by (simp add: allFiles_def update_absent)
  then have first: "evolves (allFiles m) (nextId m) (allFiles ?m1) (nextId ?m1)"
    by (simp add: evolves_later)
  have look: "map_of (projects ?m1) (pr_name pr) = Some ?new"
    by (simp add: update_conv')
  from updateProject_evolves [OF u]
  have "evolves (map snd (files ?new)) (nextId ?m1) (map snd (files p')) n'" by simp
  from evolves_trans [OF first storeProject_evolves [OF look this]] show ?thesis
    by (simp add: body storeProject_fields)
qed

lemma listFiles_update_evolves:
  "evolves (allFiles m) (nextId m)
     (allFiles (listFiles_update rps m)) (nextId (listFiles_update rps m))"
proof (induction rps arbitrary: m)
  case Nil
  show ?case by (simp add: listFiles_update_def evolves_refl)
next
  case (Cons pr rps)
  from evolves_trans [OF listFiles_body_evolves Cons.IH] show ?case
    by (simp add: listFiles_update_Cons)
qed

lemma mset_concat_filter_sub:
  "mset (concat (map g (filter P xs))) \<subseteq># mset (concat (map g xs))"
  by (induction xs) (auto intro: subset_mset.order_trans)

lemma listFiles_prune_evolves:
  "evolves (allFiles m) n (allFiles (listFiles_prune keep m)) n"
  unfolding allFiles_def projects_listFiles_prune
  by (rule evolves_sub) (rule mset_concat_filter_sub)

lemma listFiles_prune_nextId: "nextId (listFiles_prune keep m) = nextId m"
  by (simp add: listFiles_prune_def)

lemma listFiles_evolves:
  "evolves (allFiles m) (nextId m) (allFiles (snd (listFiles c m))) (nextId (snd (listFiles c m)))"
proof (cases "error (pt_listFiles c (config m))")
  case (Some e)
  then show ?thesis
    by (simp add: listFiles_def Let_def allFiles_called called_fields evolves_refl)
next
  case None
  obtain rs m1 where r: "resolveProjects c (report_projects (pt_listFiles c (config m)))
      (called ListFilesCall m) = (rs, m1)"
    by (cases "resolveProjects c (report_projects (pt_listFiles c (config m)))
      (called ListFilesCall m)")
  from resolveProjects_frame [OF r] have same: "allFiles m1 = allFiles m" "nextId m1 = nextId m"
    by (simp_all add: allFiles_def called_fields)
  from evolves_trans [OF listFiles_update_evolves listFiles_prune_evolves]
  have "evolves (allFiles m1) (nextId m1)
      (allFiles (listFiles_prune (map pr_name rs) (listFiles_update rs m1)))
      (nextId (listFiles_update rs m1))" .
  with None r same show ?thesis
    by (simp add: listFiles_def Let_def allFiles_fire fire_fields listFiles_prune_nextId)
qed

lemma updateProjects_loop_evolves:
  "updateProjects_loop pss req ps = (r, ps') \<Longrightarrow>
     evolves (concat (map (\<lambda>(k, p). map snd (files p)) ps)) n
       (concat (map (\<lambda>(k, p). map snd (files p)) ps')) n"
proof (induction ps arbitrary: r ps')
  case Nil
  then show ?case by (simp add: evolves_refl)
next
  case (Cons kp ps)
  obtain k p where kp: "kp = (k, p)" by (cases kp)
  obtain r0 p0 where one: "updateProjects_project pss req k p = (r0, p0)"
    by (cases "updateProjects_project pss req k p")
  note e0 = updateProjects_project_evolves [OF one, of n]
  show ?case
  proof (cases r0)
    case (Throw e)
    with Cons.prems kp one have "ps' = (k, p0) # ps" by simp
    with kp evolves_append [OF e0 evolves_refl] show ?thesis by simp
  next
    case (Return u)
    obtain r1 rest where rest: "updateProjects_loop pss req ps = (r1, rest)"
      by (cases "updateProjects_loop pss req ps")
    with Cons.prems kp one Return have "ps' = (k, p0) # rest" by simp
    with kp evolves_append [OF e0 Cons.IH [OF rest]] show ?thesis by simp
  qed
qed

lemma updateProjects_evolves:
  "evolves (allFiles m) (nextId m)
     (allFiles (snd (updateProjects pss req m))) (nextId (snd (updateProjects pss req m)))"
proof -
  obtain r ps' where l: "updateProjects_loop pss req (projects m) = (r, ps')"
    by (cases "updateProjects_loop pss req (projects m)")
  from updateProjects_loop_evolves [OF l, of "nextId m"] l show ?thesis
    by (cases r) (simp_all add: updateProjects_def allFiles_def fire_fields)
qed

lemma listTests_evolves:
  "evolves (allFiles m) (nextId m)
     (allFiles (snd (listTests c fs m))) (nextId (snd (listTests c fs m)))"
proof -
  obtain root errors where p: "pt_listTests c (config m) fs = (root, errors)"
    by (cases "pt_listTests c (config m) fs")
  obtain r m' where u: "updateProjects (suites root) fs (called (ListTestsCall fs) m) = (r, m')"
    by (cases "updateProjects (suites root) fs (called (ListTestsCall fs) m)")
  from updateProjects_evolves [of "called (ListTestsCall fs) m" "suites root" fs] u
  have "evolves (allFiles m) (nextId m) (allFiles m') (nextId m')"
    by (simp add: allFiles_called called_fields)
  with p u show ?thesis
    by (cases r) (simp_all add: listTests_def)
qed

lemma workspaceChanged_deleted_evolves:
  "workspaceChanged_deleted del ps mc = (ps', mc') \<Longrightarrow>
     evolves (concat (map (\<lambda>(k, p). map snd (files p)) ps)) n
       (concat (map (\<lambda>(k, p). map snd (files p)) ps')) n"
proof (induction ps arbitrary: mc ps' mc')
  case Nil
  then show ?case by (simp add: evolves_refl)
next
  case (Cons kp ps)
  obtain k p where kp: "kp = (k, p)" by (cases kp)
  obtain p1 mc1 where one: "workspaceChanged_deleteFiles del (p, mc) = (p1, mc1)"
    by (cases "workspaceChanged_deleteFiles del (p, mc)")
  obtain rest mc2 where rest: "workspaceChanged_deleted del ps mc1 = (rest, mc2)"
    by (cases "workspaceChanged_deleted del ps mc1")
  from Cons.prems kp one rest have "ps' = (k, p1) # rest" by simp
  with kp evolves_append [OF workspaceChanged_deleteFiles_evolves [OF one, of n]
      Cons.IH [OF rest]]
  show ?case by simp
qed

lemma workspaceChanged_step1_evolves:
  "evolves (allFiles m) (nextId m) (allFiles (fst (workspaceChanged_step1 del m)))
     (nextId (fst (workspaceChanged_step1 del m)))"
proof (cases "del = []")
  case True
  then show ?thesis by (simp add: workspaceChanged_step1_def evolves_refl)
next
  case False
  obtain ps' mc' where d: "workspaceChanged_deleted del (projects m) False = (ps', mc')"
    by (cases "workspaceChanged_deleted del (projects m) False")
  from workspaceChanged_deleted_evolves [OF d, of "nextId m"] False d show ?thesis
    by (simp add: workspaceChanged_step1_def allFiles_def)
qed

lemma workspaceChanged_step2_evolves:
  "evolves (allFiles m) (nextId m) (allFiles (workspaceChanged_step2 c cr m))
     (nextId (workspaceChanged_step2 c cr m))"
  by (simp add: workspaceChanged_step2_def listFiles_evolves evolves_refl)

lemma workspaceChanged_step3_evolves:
  "evolves (allFiles m) (nextId m) (allFiles (snd (workspaceChanged_step3 c ch m)))
     (nextId (snd (workspaceChanged_step3 c ch m)))"
proof (cases "ch \<noteq> [] \<and> filesToLoad ch (projects m) \<noteq> []")
  case True
  obtain r m' where l: "listTests c (filesToLoad ch (projects m)) m = (r, m')"
    by (cases "listTests c (filesToLoad ch (projects m)) m")
  from listTests_evolves [of m c "filesToLoad ch (projects m)"] l True show ?thesis
    by (cases r) (simp_all add: workspaceChanged_step3_def)
next
  case False
  then show ?thesis
    by (auto simp: workspaceChanged_step3_def evolves_refl)
qed

lemma workspaceChanged_evolves:
  "evolves (allFiles m) (nextId m)
     (allFiles (snd (workspaceChanged c change m))) (nextId (snd (workspaceChanged c change m)))"
proof -
  let ?m1 = "fst (workspaceChanged_step1 (mapFilesToSources m (deleted change)) m)"
  let ?m2 = "workspaceChanged_step2 c (mapFilesToSources m (created change)) ?m1"
  let ?m3 = "snd (workspaceChanged_step3 c (mapFilesToSources m (changed change)) ?m2)"
  have "allFiles (snd (workspaceChanged c change m)) = allFiles ?m3
      \<and> nextId (snd (workspaceChanged c change m)) = nextId ?m3"
    by (simp add: workspaceChanged_def Let_def allFiles_fire fire_fields
        split: prod.split completion.split)
  with evolves_trans [OF workspaceChanged_step1_evolves
      evolves_trans [OF workspaceChanged_step2_evolves workspaceChanged_step3_evolves]]
  show ?thesis by simp
qed

lemma updateFromRunningProject_evolves:
  assumes "map_of (projects m) k = Some p"
  shows "evolves (allFiles m) (nextId m) (allFiles (snd (updateFromRunningProject k p s m)))
     (nextId (snd (updateFromRunningProject k p s m)))"
proof -
  obtain r p' n' where l: "updateFromRunningProject_loop (suites s) (p, nextId m) = (r, p', n')"
    by (cases "updateFromRunningProject_loop (suites s) (p, nextId m)") auto
  from storeProject_evolves [OF assms updateFromRunningProject_loop_evolves [OF l]] l
  show ?thesis
    by (cases r) (simp_all add: updateFromRunningProject_def allFiles_fire fire_fields
        storeProject_fields)
qed

lemma updateFromRunningProjects_evolves:
  "evolves (allFiles m) (nextId m) (allFiles (snd (updateFromRunningProjects pss m)))
     (nextId (snd (updateFromRunningProjects pss m)))"
proof (induction pss arbitrary: m)
  case Nil
  show ?case by (simp add: evolves_refl)
next
  case (Cons s pss)
  show ?case
  proof (cases "project s")
    case None
    then show ?thesis by (simp add: evolves_refl)
  next
    case (Some fp)
    show ?thesis
    proof (cases "map_of (projects m) (fp_name fp)")
      case None
      with Some Cons.IH [of m] show ?thesis by simp
    next
      case found: (Some p)
      obtain r m1 where step: "updateFromRunningProject (fp_name fp) p s m = (r, m1)"
        by (cases "updateFromRunningProject (fp_name fp) p s m")
      from updateFromRunningProject_evolves [OF found, of s] step
      have e1: "evolves (allFiles m) (nextId m) (allFiles m1) (nextId m1)" by simp
      show ?thesis
      proof (cases r)
        case (Throw e)
        with Some found step e1 show ?thesis by simp
      next
        case (Return u)
        with Some found step evolves_trans [OF e1 Cons.IH [of m1]] show ?thesis by simp
      qed
    qed
  qed
qed

lemma perform_evolves:
  "evolves (allFiles m) (nextId m) (allFiles (perform co m)) (nextId (perform co m))"
proof -
  obtain c operation where co: "co = (c, operation)" by (cases co)
  have enabled: "allFiles (setProjectEnabled r b m) = allFiles m
      \<and> nextId (setProjectEnabled r b m) = nextId m" for r b
    unfolding allFiles_def setProjectEnabled_def fire_def case_prod_unfold
    by (simp add: comp_def if_distrib [where f = files] cong: if_cong)
  show ?thesis
    unfolding co
    by (cases operation)
      (simp_all add: enabled evolves_refl listFiles_evolves listTests_evolves
        workspaceChanged_evolves updateFromRunningProjects_evolves)
qed

lemma performAll_evolves:
  "evolves (allFiles m) (nextId m) (allFiles (performAll ops m)) (nextId (performAll ops m))"
proof (induction ops arbitrary: m)
  case Nil
  show ?case by (simp add: performAll_def evolves_refl)
next
  case (Cons co ops)
  from evolves_trans [OF perform_evolves Cons.IH [unfolded performAll_def]] show ?case
    by (simp add: performAll_def)
qed

section \<open>Identities of the projects\<close>

lemma evolves_le: "evolves fs n fs' n' \<Longrightarrow> n \<le> n'"
  by (simp add: evolves_def)

lemma allocates_same: "n \<le> n' \<Longrightarrow> allocates ids n ids n'"
  by (simp add: allocates_def)

lemma allocates_sub: "mset ids' \<subseteq># mset ids \<Longrightarrow> allocates ids n ids' n"
  by (simp add: allocates_def)

lemma allocates_trans:
  assumes "allocates ids n ids1 n1" and "allocates ids1 n1 ids2 n2"
  shows "allocates ids n ids2 n2"
proof -
  from assms have le: "n \<le> n1" "n1 \<le> n2" by (simp_all add: allocates_def)
  then have "[n..<n2] = [n..<n1] @ [n1..<n2]"
    by (metis le_Suc_ex upt_add_eq_append)
  then have split: "mset [n..<n2] = mset [n..<n1] + mset [n1..<n2]" by simp
  from assms have "mset ids2 \<subseteq># mset ids1 + mset [n1..<n2]"
    and "mset ids1 \<subseteq># mset ids + mset [n..<n1]"
    by (simp_all add: allocates_def)
  then have "mset ids2 \<subseteq># mset ids + mset [n..<n2]"
    unfolding split
    by (metis (no_types, lifting) add.assoc subset_mset.add_right_mono subset_mset.order_trans)
  with le show ?thesis by (simp add: allocates_def)
qed

lemma allocates_new: "Suc n \<le> n' \<Longrightarrow> allocates ids n (ids @ [n]) n'"
proof -
  assume "Suc n \<le> n'"
  then have "n \<in> set [n..<n']" by simp
  then have "{#n#} \<subseteq># mset [n..<n']" by (simp only: single_subset_iff set_mset_mset)
  then have "mset ids + {#n#} \<subseteq># mset ids + mset [n..<n']"
    by (rule subset_mset.add_left_mono)
  with \<open>Suc n \<le> n'\<close> show ?thesis by (simp add: allocates_def)
qed

lemma storeProject_projectIds:
  assumes "map_of (projects m) k = Some p" and "pid p' = pid p"
  shows "projectIds (storeProject k (p', n') m) = projectIds m"
proof -
  from update_in_place [OF assms(1), of p'] obtain pre post where
    "projects m = pre @ (k, p) # post"
    "AList.update k p' (projects m) = pre @ (k, p') # post" by blast
  with assms(2) show ?thesis
    by (simp add: projectIds_def storeProject_fields)
qed

lemma listFiles_body_allocates:
  "allocates (projectIds m) (nextId m)
     (projectIds (listFiles_body pr m)) (nextId (listFiles_body pr m))"
proof (cases "map_of (projects m) (pr_name pr)")
  case (Some p)
  obtain p' n' where u: "updateProject p pr (nextId m) = (p', n')"
    by (cases "updateProject p pr (nextId m)")
  from updateProject_fields [OF u] have "pid p' = pid p" by simp
  from storeProject_projectIds [OF Some this, of n'] Some u
  have "projectIds (listFiles_body pr m) = projectIds m"
    by (simp add: listFiles_body_def)
  with listFiles_body_nextId [of m pr] show ?thesis
    by (simp add: allocates_same)
next
  case None
  let ?new = "\<lparr>pid = nextId m, name = pr_name pr, testDir = pr_testDir pr, files = [],
           isEnabled = True\<rparr>"
  let ?m1 = "m\<lparr>projects := AList.update (pr_name pr) ?new (projects m),
                nextId := Suc (nextId m)\<rparr>"
  obtain p' n' where u: "updateProject ?new pr (Suc (nextId m)) = (p', n')"
    by (cases "updateProject ?new pr (Suc (nextId m))")
  have body: "listFiles_body pr m = storeProject (pr_name pr) (p', n') ?m1"
    using None u by (simp add: listFiles_body_def createProject_def Let_def)
  have look: "map_of (projects ?m1) (pr_name pr) = Some ?new"
    by (simp add: update_conv')
  from updateProject_fields [OF u] have same: "pid p' = pid ?new" and le: "Suc (nextId m) \<le> n'"
    by simp_all
  have "projectIds ?m1 = projectIds m @ [nextId m]"
    using None by (simp add: projectIds_def update_absent)
  with storeProject_projectIds [OF look same, of n']
  have "projectIds (listFiles_body pr m) = projectIds m @ [nextId m]"
    by (simp add: body)
  moreover have "nextId (listFiles_body pr m) = n'"
    by (simp add: body storeProject_fields)
  ultimately show ?thesis using allocates_new [OF le] by simp
qed

lemma listFiles_update_allocates:
  "allocates (projectIds m) (nextId m)
     (projectIds (listFiles_update rps m)) (nextId (listFiles_update rps m))"
proof (induction rps arbitrary: m)
  case Nil
  show ?case by (simp add: listFiles_update_def allocates_same)
next
  case (Cons pr rps)
  from allocates_trans [OF listFiles_body_allocates Cons.IH] show ?case
    by (simp add: listFiles_update_Cons)
qed

lemma listFiles_allocates:
  "allocates (projectIds m) (nextId m)
     (projectIds (snd (listFiles c m))) (nextId (snd (listFiles c m)))"
proof (cases "error (pt_listFiles c (config m))")
  case (Some e)
  then show ?thesis
    by (simp add: listFiles_def Let_def projectIds_def called_fields allocates_same)
next
  case None
  obtain rs m1 where r: "resolveProjects c (report_projects (pt_listFiles c (config m)))
      (called ListFilesCall m) = (rs, m1)"
    by (cases "resolveProjects c (report_projects (pt_listFiles c (config m)))
      (called ListFilesCall m)")
  from resolveProjects_frame [OF r] have same: "projectIds m1 = projectIds m"
    "nextId m1 = nextId m"
    by (simp_all add: projectIds_def called_fields)
  have "allocates (projectIds (listFiles_update rs m1)) (nextId (listFiles_update rs m1))
      (projectIds (listFiles_prune (map pr_name rs) (listFiles_update rs m1)))
      (nextId (listFiles_update rs m1))"
    unfolding projectIds_def projects_listFiles_prune
    by (rule allocates_sub) (rule mset_map_filter_sub)
  from allocates_trans [OF listFiles_update_allocates this] None r same show ?thesis
    by (simp add: listFiles_def Let_def projectIds_def fire_fields listFiles_prune_nextId)
qed

lemma updateProjects_fileSuites_pid:
  "updateProjects_fileSuites fss (ftd, p) = (r, ftd', p') \<Longrightarrow> pid p' = pid p"
proof (induction fss arbitrary: ftd p)
  case Nil
  then show ?case by simp
next
  case (Cons fs fss)
  then show ?case
    by (cases "location fs") (auto simp: setFileEntries_fields)
qed

lemma updateProjects_noEntries_pid: "pid (updateProjects_noEntries ftd p) = pid p"
  by (induction ftd arbitrary: p) (simp_all add: setFileEntries_fields)

lemma updateProjects_project_pid:
  "updateProjects_project pss req k p = (r, p') \<Longrightarrow> pid p' = pid p"
  by (auto simp: updateProjects_project_def updateProjects_noEntries_pid
      split: completion.splits prod.splits dest: updateProjects_fileSuites_pid)

lemma updateProjects_loop_pids:
  "updateProjects_loop pss req ps = (r, ps') \<Longrightarrow>
     map (\<lambda>kp. pid (snd kp)) ps' = map (\<lambda>kp. pid (snd kp)) ps"
proof (induction ps arbitrary: r ps')
  case Nil
  then show ?case by simp
next
  case (Cons kp ps)
  obtain k p where kp: "kp = (k, p)" by (cases kp)
  obtain r0 p0 where one: "updateProjects_project pss req k p = (r0, p0)"
    by (cases "updateProjects_project pss req k p")
  note same = updateProjects_project_pid [OF one]
  show ?case
  proof (cases r0)
    case (Throw e)
    with Cons.prems kp one same show ?thesis by auto
  next
    case (Return u)
    obtain r1 rest where rest: "updateProjects_loop pss req ps = (r1, rest)"
      by (cases "updateProjects_loop pss req ps")
    with Cons.prems kp one Return have "ps' = (k, p0) # rest" by simp
    with kp same Cons.IH [OF rest] show ?thesis by simp
  qed
qed

lemma listTests_projectIds:
  "projectIds (snd (listTests c fs m)) = projectIds m
   \<and> nextId (snd (listTests c fs m)) = nextId m"
proof -
  obtain root errors where p: "pt_listTests c (config m) fs = (root, errors)"
    by (cases "pt_listTests c (config m) fs")
  obtain r ps' where l: "updateProjects_loop (suites root) fs (projects m) = (r, ps')"
    by (cases "updateProjects_loop (suites root) fs (projects m)")
  from updateProjects_loop_pids [OF l] p l show ?thesis
    by (cases r) (simp_all add: listTests_def updateProjects_def projectIds_def
        called_fields fire_fields)
qed

lemma workspaceChanged_deleted_pids:
  "workspaceChanged_deleted del ps mc = (ps', mc') \<Longrightarrow>
     map (\<lambda>kp. pid (snd kp)) ps' = map (\<lambda>kp. pid (snd kp)) ps"
proof (induction ps arbitrary: mc ps' mc')
  case Nil
  then show ?case by simp
next
  case (Cons kp ps)
  obtain k p where kp: "kp = (k, p)" by (cases kp)
  obtain p1 mc1 where one: "workspaceChanged_deleteFiles del (p, mc) = (p1, mc1)"
    by (cases "workspaceChanged_deleteFiles del (p, mc)")
  obtain rest mc2 where rest: "workspaceChanged_deleted del ps mc1 = (rest, mc2)"
    by (cases "workspaceChanged_deleted del ps mc1")
  from Cons.prems kp one rest have "ps' = (k, p1) # rest" by simp
  with kp workspaceChanged_deleteFiles_result [OF one] Cons.IH [OF rest] show ?case by simp
qed

lemma workspaceChanged_step1_projectIds:
  "projectIds (fst (workspaceChanged_step1 del m)) = projectIds m
   \<and> nextId (fst (workspaceChanged_step1 del m)) = nextId m"
proof (cases "del = []")
  case True
  then show ?thesis by (simp add: workspaceChanged_step1_def)
next
  case False
  obtain ps' mc' where d: "workspaceChanged_deleted del (projects m) False = (ps', mc')"
    by (cases "workspaceChanged_deleted del (projects m) False")
  from workspaceChanged_deleted_pids [OF d] False d show ?thesis
    by (simp add: workspaceChanged_step1_def projectIds_def)
qed

lemma workspaceChanged_step3_projectIds:
  "projectIds (snd (workspaceChanged_step3 c ch m)) = projectIds m
   \<and> nextId (snd (workspaceChanged_step3 c ch m)) = nextId m"
proof (cases "ch \<noteq> [] \<and> filesToLoad ch (projects m) \<noteq> []")
  case True
  obtain r m' where l: "listTests c (filesToLoad ch (projects m)) m = (r, m')"
    by (cases "listTests c (filesToLoad ch (projects m)) m")
  from listTests_projectIds [of c "filesToLoad ch (projects m)" m] l True show ?thesis
    by (cases r) (simp_all add: workspaceChanged_step3_def)
next
  case False
  then show ?thesis
    by (auto simp: workspaceChanged_step3_def)
qed

lemma workspaceChanged_allocates:
  "allocates (projectIds m) (nextId m)
     (projectIds (snd (workspaceChanged c change m))) (nextId (snd (workspaceChanged c change m)))"
proof -
  let ?m1 = "fst (workspaceChanged_step1 (mapFilesToSources m (deleted change)) m)"
  let ?m2 = "workspaceChanged_step2 c (mapFilesToSources m (created change)) ?m1"
  let ?m3 = "snd (workspaceChanged_step3 c (mapFilesToSources m (changed change)) ?m2)"
  have final: "projectIds (snd (workspaceChanged c change m)) = projectIds ?m3
      \<and> nextId (snd (workspaceChanged c change m)) = nextId ?m3"
    by (simp add: workspaceChanged_def Let_def projectIds_def fire_fields
        split: prod.split completion.split)
  have "allocates (projectIds ?m1) (nextId ?m1) (projectIds ?m2) (nextId ?m2)"
    by (simp add: workspaceChanged_step2_def listFiles_allocates allocates_same)
  then have two: "allocates (projectIds m) (nextId m) (projectIds ?m2) (nextId ?m2)"
    by (simp add: workspaceChanged_step1_projectIds)
  have "projectIds ?m3 = projectIds ?m2 \<and> nextId ?m3 = nextId ?m2"
    by (rule workspaceChanged_step3_projectIds)
  with two final show ?thesis by simp
qed

lemma updateFromRunningProject_projectIds:
  assumes "map_of (projects m) k = Some p"
  shows "projectIds (snd (updateFromRunningProject k p s m)) = projectIds m"
proof -
  obtain r p' n' where l: "updateFromRunningProject_loop (suites s) (p, nextId m) = (r, p', n')"
    by (cases "updateFromRunningProject_loop (suites s) (p, nextId m)") auto
  from updateFromRunningProject_loop_fields [OF l] have "pid p' = pid p" by simp
  from storeProject_projectIds [OF assms this, of n'] l show ?thesis
    by (cases r) (simp_all add: updateFromRunningProject_def projectIds_def fire_fields)
qed

lemma updateFromRunningProjects_projectIds:
  "projectIds (snd (updateFromRunningProjects pss m)) = projectIds m"
proof (induction pss arbitrary: m)
  case Nil
  show ?case by simp
next
  case (Cons s pss)
  show ?case
  proof (cases "project s")
    case None
    then show ?thesis by simp
  next
    case (Some fp)
    show ?thesis
    proof (cases "map_of (projects m) (fp_name fp)")
      case None
      with Some Cons.IH [of m] show ?thesis by simp
    next
      case found: (Some p)
      obtain r m1 where step: "updateFromRunningProject (fp_name fp) p s m = (r, m1)"
        by (cases "updateFromRunningProject (fp_name fp) p s m")
      from updateFromRunningProject_projectIds [OF found, of s] step
      have "projectIds m1 = projectIds m" by simp
      with Some found step Cons.IH [of m1] show ?thesis
        by (cases r) simp_all
    qed
  qed
qed

lemma perform_allocates:
  "allocates (projectIds m) (nextId m) (projectIds (perform co m)) (nextId (perform co m))"
proof -
  obtain c operation where co: "co = (c, operation)" by (cases co)
  have enabled: "projectIds (setProjectEnabled r b m) = projectIds m
      \<and> nextId (setProjectEnabled r b m) = nextId m" for r b
    unfolding projectIds_def setProjectEnabled_def fire_def case_prod_unfold
    by (simp add: comp_def if_distrib [where f = pid] cong: if_cong)
  show ?thesis
  proof (cases operation)
    case (SetProjectEnabled r b)
    with co enabled show ?thesis by (simp add: allocates_same)
  next
    case ListFiles
    with co show ?thesis by (simp add: listFiles_allocates)
  next
    case (ListTests fs)
    with co show ?thesis by (simp add: listTests_projectIds allocates_same)
  next
    case (WorkspaceChanged change)
    with co show ?thesis by (simp add: workspaceChanged_allocates)
  next
    case (UpdateFromRunningProjects pss)
    from evolves_le [OF updateFromRunningProjects_evolves [of m pss]]
    have "nextId m \<le> nextId (snd (updateFromRunningProjects pss m))" .
    with co UpdateFromRunningProjects show ?thesis
      by (simp add: updateFromRunningProjects_projectIds allocates_same)
  qed
qed

lemma performAll_allocates:
  "allocates (projectIds m) (nextId m)
     (projectIds (performAll ops m)) (nextId (performAll ops m))"
proof (induction ops arbitrary: m)
  case Nil
  show ?case by (simp add: performAll_def allocates_same)
next
  case (Cons co ops)
  from allocates_trans [OF perform_allocates Cons.IH [unfolded performAll_def]] show ?case
    by (simp add: performAll_def)
qed

lemma distinct_mset_sub: "mset xs \<subseteq># mset ys \<Longrightarrow> distinct ys \<Longrightarrow> distinct xs"
proof (induction xs arbitrary: ys)
  case Nil
  show ?case by simp
next
  case (Cons x xs)
  from Cons.prems(1) have x: "x \<in># mset ys" and rest: "mset xs \<subseteq># mset ys - {#x#}"
    by (simp_all add: insert_subset_eq_iff)
  from rest have sub: "mset xs \<subseteq># mset (remove1 x ys)" by simp
  from Cons.prems(2) have d: "distinct (remove1 x ys)" by simp
  from Cons.IH [OF sub d] have "distinct xs" .
  moreover from sub have "set xs \<subseteq> set (remove1 x ys)"
    by (metis set_mset_mono set_mset_mset)
  with Cons.prems(2) have "x \<notin> set xs" by (auto simp: set_remove1_eq)
  ultimately show ?case by simp
qed

lemma wellFormed_evolves:
  assumes "wellFormed m" and "evolves (allFiles m) (nextId m) (allFiles m') (nextId m')"
    and "allocates (projectIds m) (nextId m) (projectIds m') (nextId m')"
  shows "wellFormed m'"
proof -
  let ?ids = "map fid (allFiles m)" and ?ids' = "map fid (allFiles m')"
  let ?new = "[nextId m..<nextId m']"
  from assms(1) have d: "distinct ?ids" and b: "\<forall>i\<in>set ?ids. i < nextId m"
    and pd: "distinct (projectIds m)" and pb: "\<forall>i\<in>set (projectIds m). i < nextId m"
    by (auto simp: wellFormed_def)
  from assms(2) have le: "nextId m \<le> nextId m'"
    and sub: "mset ?ids' \<subseteq># mset (?ids @ ?new)"
    by (simp_all add: evolves_def)
  from assms(3) have psub: "mset (projectIds m') \<subseteq># mset (projectIds m @ ?new)"
    by (simp add: allocates_def)
  from d b have "distinct (?ids @ ?new)" by auto
  with sub have 1: "distinct ?ids'" by (rule distinct_mset_sub)
  have 2: "fid tf' < nextId m'" if "tf' \<in> set (allFiles m')" for tf'
  proof -
    from sub have "set ?ids' \<subseteq> set (?ids @ ?new)"
      by (metis set_mset_mono set_mset_mset)
    with that have "fid tf' \<in> set ?ids \<union> set ?new" by auto
    with b le show ?thesis by auto
  qed
  from pd pb have "distinct (projectIds m @ ?new)" by auto
  with psub have 3: "distinct (projectIds m')" by (rule distinct_mset_sub)
  have 4: "i < nextId m'" if "i \<in> set (projectIds m')" for i
  proof -
    from psub have "set (projectIds m') \<subseteq> set (projectIds m @ ?new)"
      by (metis set_mset_mono set_mset_mset)
    with that have "i \<in> set (projectIds m) \<union> set ?new" by auto
    with pb le show ?thesis by auto
  qed
  from 1 2 3 4 show ?thesis by (simp add: wellFormed_def)
qed

lemma evolves_revision:
  assumes "wellFormed m" and "evolves (allFiles m) (nextId m) fs' n'"
    and "tf \<in> set (allFiles m)" and "tf' \<in> set fs'" and "fid tf' = fid tf"
  shows "revision tf \<le> revision tf'"
proof -
  from assms(1,3) have "fid tf < nextId m" by (simp add: wellFormed_def)
  with assms(5) have old: "\<not> nextId m \<le> fid tf'" by simp
  from assms(2,4) have "(\<exists>tf0\<in>set (allFiles m). fid tf0 = fid tf' \<and> revision tf0 \<le> revision tf')
      \<or> nextId m \<le> fid tf'"
    unfolding evolves_def by blast
  with old obtain tf0 where tf0: "tf0 \<in> set (allFiles m)" "fid tf0 = fid tf'"
    "revision tf0 \<le> revision tf'" by blast
  from assms(1) have "inj_on fid (set (allFiles m))"
    by (simp add: wellFormed_def distinct_map)
  with tf0(1,2) assms(3,5) have "tf0 = tf" by (simp add: inj_on_def)
  with tf0(3) show ?thesis by simp
qed

lemma wellFormed_newTestModel: "wellFormed (newTestModel w cf cl v)"
  by (simp add: wellFormed_def allFiles_def projectIds_def newTestModel_def)

text \<open>
  C8. A new file is at revision 0. \<open>setEntries\<close> adds exactly one to the revision and
  stores the sequence it is given, whatever the file held before, the same sequence
  included. The model of the constructor is well formed (its objects are distinct and
  numbered below \<open>nextId\<close>), and from a well-formed model
  any sequence of operations (each with any answers of the collaborators, thrown calls
  included) leads to a well-formed model in which every file object that is still held
  has a revision not below the one it had: the revision never decreases and is never
  reset.
\<close>

theorem revision_monotone:
  "revision (newTestFile i f) = 0
   \<and> revision (setEntries es tf0) = revision tf0 + 1
   \<and> entries (setEntries es tf0) = Some es
   \<and> fid (setEntries es tf0) = fid tf0
   \<and> wellFormed (newTestModel w cf cl v)
   \<and> (wellFormed m \<longrightarrow>
        wellFormed (performAll ops m)
        \<and> (\<forall>tf\<in>set (allFiles m). \<forall>tf'\<in>set (allFiles (performAll ops m)).
              fid tf' = fid tf \<longrightarrow> revision tf \<le> revision tf'))"
proof -
  have wf: "wellFormed (performAll ops m)" if "wellFormed m"
    using wellFormed_evolves [OF that performAll_evolves performAll_allocates] .
  have mono: "revision tf \<le> revision tf'"
    if "wellFormed m" "tf \<in> set (allFiles m)" "tf' \<in> set (allFiles (performAll ops m))"
      "fid tf' = fid tf" for tf tf'
    using evolves_revision [OF that(1) performAll_evolves that(2,3,4)] .
  have basic: "revision (newTestFile i f) = 0
   \<and> revision (setEntries es tf0) = revision tf0 + 1
   \<and> entries (setEntries es tf0) = Some es
   \<and> fid (setEntries es tf0) = fid tf0"
    by (simp add: newTestFile_simps setEntries_simps)
  from basic wellFormed_newTestModel [of w cf cl v] wf mono show ?thesis by blast
qed

theorem revision_monotone_witness:
  "wellFormed ex_model
   \<and> \<lparr>fid = 1, tf_file = ''/t/x'', entries = Some [EntryCase ex_case], revision = 1\<rparr>
       \<in> set (allFiles ex_model)
   \<and> \<lparr>fid = 1, tf_file = ''/t/x'', entries = Some [], revision = 3\<rparr>
       \<in> set (allFiles (performAll
            [(ex_collaborators ex_report [ex_projectSuite ''A'' [ex_fileSuite ''/t/x'']],
                ListTests [''/t/x'']),
             (ex_collaborators ex_report [],
                UpdateFromRunningProjects
                  [ex_projectSuite ''A'' [ex_fileSuite ''/t/x'', ex_fileSuite ''/t/y'']]),
             (ex_collaborators ex_report [],
                WorkspaceChanged
                  \<lparr>created = [''/t/z''], changed = [''/t/x''], deleted = [''/t/y'']\<rparr>)]
            ex_model))
   \<and> revision \<lparr>fid = 1, tf_file = ''/t/x'', entries = Some [EntryCase ex_case], revision = 1\<rparr>
       \<le> revision \<lparr>fid = 1, tf_file = ''/t/x'', entries = Some [], revision = 3\<rparr>"
proof -
  let ?ops = "[(ex_collaborators ex_report [ex_projectSuite ''A'' [ex_fileSuite ''/t/x'']],
                ListTests [''/t/x'']),
             (ex_collaborators ex_report [],
                UpdateFromRunningProjects
                  [ex_projectSuite ''A'' [ex_fileSuite ''/t/x'', ex_fileSuite ''/t/y'']]),
             (ex_collaborators ex_report [],
                WorkspaceChanged
                  \<lparr>created = [''/t/z''], changed = [''/t/x''], deleted = [''/t/y'']\<rparr>)]"
  let ?tf = "\<lparr>fid = 1, tf_file = ''/t/x'', entries = Some [EntryCase ex_case], revision = 1\<rparr>"
  let ?tf' = "\<lparr>fid = 1, tf_file = ''/t/x'', entries = Some [], revision = 3\<rparr>"
  have wf: "wellFormed ex_model"
    by (simp add: wellFormed_def allFiles_def projectIds_def ex_model_def)
  have a: "?tf \<in> set (allFiles ex_model)"
    by (simp add: allFiles_def ex_model_def)
  have b: "?tf' \<in> set (allFiles (performAll ?ops ex_model))"
    by (simp add: performAll_def allFiles_def ex_model_def ex_collaborators_def ex_report_def
        ex_projectSuite_def ex_fileSuite_def
        listTests_def updateProjects_def updateProjects_project_def Set_of_def Set_add_def
        setFileEntries_def setEntries_def suiteEntries_def called_def fire_def
        updateFromRunningProject_def storeProject_def createFile_def newTestFile_def
        workspaceChanged_def mapFilesToSources_def
        workspaceChanged_step1_def workspaceChanged_step2_def workspaceChanged_step3_def
        hasMatchingFiles_def filesToLoad_def listFiles_def
        listFiles_update_def listFiles_body_def createProject_def
        updateProject_def updateProject_prune_def listFiles_prune_def Let_def)
  have same: "fid ?tf' = fid ?tf" by simp
  from revision_monotone [of _ _ _ _ _ _ _ _ ex_model ?ops] wf a b same
  have "revision ?tf \<le> revision ?tf'" by blast
  with wf a b show ?thesis by (intro conjI)
qed

end
